theory Spec2Isabelle
  imports Complex_Main "HOL-Library.Log_Nat"
begin

section \<open>Customer request tracking: the request lifecycle\<close>

text \<open>
  A shallow embedding of the backend of the customer request tracking application:
  the request model (\<^verbatim>\<open>models/request.js\<close>), the three repositories, the request and
  document services, the customer portal's submit gate and the two scheduled jobs
  (reminder and SLA expiry).

  Conventions of the embedding.
  \<^item> A JavaScript \<^verbatim>\<open>Date\<close> is its time value, an integer number of milliseconds.
    The wall clock is a parameter: every \<^verbatim>\<open>new Date()\<close> of one call reads
    \<open>clock e\<close>.
  \<^item> A JavaScript number that is computed by a division is a rational, rounded to
    IEEE 754 binary64 by \<open>fl\<close> after each arithmetic operation.
  \<^item> A Firestore collection is the list of its documents; \<^verbatim>\<open>doc(id)\<close> addresses the
    documents whose id field is \<open>id\<close>. Identifiers handed out by \<^verbatim>\<open>doc()\<close> come from
    \<open>autoId e\<close>.
  \<^item> \<^verbatim>\<open>throw new Error(msg)\<close> is the outcome \<open>Thrown (Error msg)\<close>. The only
    collaborator whose failure is modelled is the audit sink: a write the sink refuses
    (\<open>sinkAccepts e\<close> is false on the entry) rejects the awaited promise, which is the
    outcome \<open>Thrown SinkRejected\<close>. Every operation returns its outcome together with
    the store as the call leaves it, so that a write made before a throw stays visible.
  \<^item> Blob storage (the uploaded bytes) is outside the model; the storage path of a file
    is an argument. The payload fields of a request that no operation reads
    (customer name, phone, e-mail, dealer, vehicle) are left out.
\<close>

subsection \<open>Numbers\<close>

text \<open>
  IEEE 754 binary64 rounding (round to nearest, ties to even) of a rational in the normal
  range: \<open>expo q\<close> is the exponent \<open>e\<close> with \<open>2^e \<le> q < 2^(e+1)\<close>, and the result is
  the nearest multiple of \<open>2^(e-52)\<close>.
\<close>

definition expo :: "rat \<Rightarrow> int" where
  "expo q = (if 1 \<le> q then bitlen \<lfloor>q\<rfloor> - 1 else - bitlen (\<lceil>1 / q\<rceil> - 1))"

definition roundHalfEven :: "rat \<Rightarrow> int" where
  "roundHalfEven m =
     (let f = \<lfloor>m\<rfloor>; d = m - of_int f
      in if d < 1 / 2 then f else if 1 / 2 < d then f + 1 else if even f then f else f + 1)"

definition fl :: "rat \<Rightarrow> rat" where
  "fl q = (if q = 0 then 0
           else let u = 2 powi (expo \<bar>q\<bar> - 52)
                in sgn q * of_int (roundHalfEven (\<bar>q\<bar> / u)) * u)"

text \<open>\<^verbatim>\<open>Math.round\<close>: the nearest integer, a tie going up.\<close>

definition Math_round :: "rat \<Rightarrow> int" where
  "Math_round x = \<lfloor>x + 1 / 2\<rfloor>"

text \<open>Exact rounding half up of a quotient, the reference the percentage is compared with.\<close>

definition roundHalfUp :: "rat \<Rightarrow> int" where
  "roundHalfUp x = \<lfloor>x + 1 / 2\<rfloor>"

subsection \<open>The request model\<close>

type_synonym time = int

definition OPEN :: string where "OPEN = ''OPEN''"
definition IN_PROGRESS :: string where "IN_PROGRESS = ''IN_PROGRESS''"
definition SUBMITTED :: string where "SUBMITTED = ''SUBMITTED''"
definition COMPLETED :: string where "COMPLETED = ''COMPLETED''"
definition EXPIRED :: string where "EXPIRED = ''EXPIRED''"

definition PENDING :: string where "PENDING = ''PENDING''"
definition APPROVED :: string where "APPROVED = ''APPROVED''"
definition REJECTED :: string where "REJECTED = ''REJECTED''"

definition DOCUMENT_TYPES :: "string list" where
  "DOCUMENT_TYPES = [''ID'', ''LICENCE'', ''PROOF_OF_ADDRESS'', ''BANK_STATEMENT'']"

definition REMINDER_LEVEL_NONE :: int where "REMINDER_LEVEL_NONE = 0"
definition REMINDER_LEVEL_FIRST :: int where "REMINDER_LEVEL_FIRST = 1"
definition REMINDER_LEVEL_SECOND :: int where "REMINDER_LEVEL_SECOND = 2"

record request =
  rid :: string
  agentId :: string
  status :: string
  createdAt :: time
  updatedAt :: time
  expiredAt :: "time option"
  completionPercent :: int
  needsReminderLevel :: int
  lastReminderAt :: "time option"
  request_notes :: string
  secureToken :: string
  reviewStatus :: string
  reviewComment :: "string option"
  reviewedBy :: "string option"
  reviewedAt :: "time option"
  rejectedDocumentTypes :: "string list option"

record document =
  doc_id :: string
  doc_requestId :: string
  doc_type :: string
  doc_storagePath :: string
  doc_uploadedAt :: time
  doc_checksum :: "string option"

record auditLog =
  log_id :: string
  log_actorId :: string
  log_action :: string
  log_requestId :: string
  log_timestamp :: time
  log_ip :: "string option"
  log_metadata :: "(string \<times> string list) list"

record world =
  requests :: "request list"
  documents :: "document list"
  auditLogs :: "auditLog list"

record env =
  clock :: time
  autoId :: "nat \<Rightarrow> string"
  sinkAccepts :: "auditLog \<Rightarrow> bool"

datatype error = Error string | SinkRejected

datatype 'a outcome = Returned 'a | Thrown error

text \<open>JavaScript truthiness of an optional string, and \<^verbatim>\<open>x || null\<close>.\<close>

definition truthy :: "string option \<Rightarrow> bool" where
  "truthy x = (case x of None \<Rightarrow> False | Some s \<Rightarrow> s \<noteq> [])"

definition orNull :: "string option \<Rightarrow> string option" where
  "orNull x = (if truthy x then x else None)"

text \<open>\<^verbatim>\<open>request.rejectedDocumentTypes || []\<close>: the field is absent until a review writes it.\<close>

definition rejectedSlots :: "request \<Rightarrow> string list" where
  "rejectedSlots r = (case rejectedDocumentTypes r of None \<Rightarrow> [] | Some ts \<Rightarrow> ts)"

text \<open>\<^verbatim>\<open>createRequest\<close> of the model: the default values of a new request.\<close>

definition createRequestModel :: "env \<Rightarrow> string \<Rightarrow> string \<Rightarrow> string \<Rightarrow> string \<Rightarrow> request" where
  "createRequestModel e i agent token nts =
     \<lparr> rid = i, agentId = agent, status = OPEN, createdAt = clock e, updatedAt = clock e,
       expiredAt = None, completionPercent = 0, needsReminderLevel = REMINDER_LEVEL_NONE,
       lastReminderAt = None, request_notes = nts, secureToken = token,
       reviewStatus = PENDING, reviewComment = None, reviewedBy = None, reviewedAt = None,
       rejectedDocumentTypes = None \<rparr>"

text \<open>\<^verbatim>\<open>isValidStatusTransition\<close>: exported by the model, called by no service.\<close>

definition isValidStatusTransition :: "string \<Rightarrow> string \<Rightarrow> bool" where
  "isValidStatusTransition currentStatus newStatus =
     (if currentStatus = OPEN then newStatus \<in> set [IN_PROGRESS, EXPIRED]
      else if currentStatus = IN_PROGRESS then newStatus \<in> set [OPEN, SUBMITTED, EXPIRED]
      else if currentStatus = SUBMITTED then newStatus \<in> set [COMPLETED, EXPIRED]
      else if currentStatus = EXPIRED then newStatus \<in> set [OPEN]
      else False)"

subsection \<open>Repositories\<close>

definition getRequestById :: "world \<Rightarrow> string \<Rightarrow> request option" where
  "getRequestById w requestId = find (\<lambda>r. rid r = requestId) (requests w)"

text \<open>
  \<^verbatim>\<open>requestRepository.updateRequest\<close>: the field updates are a function on the stored
  request; \<^verbatim>\<open>updatedAt\<close> is written with them.
\<close>

definition updateRequest_repo :: "env \<Rightarrow> world \<Rightarrow> string \<Rightarrow> (request \<Rightarrow> request) \<Rightarrow> world" where
  "updateRequest_repo e w requestId updates =
     w\<lparr>requests := map (\<lambda>r. if rid r = requestId then (updates r)\<lparr>updatedAt := clock e\<rparr> else r)
                        (requests w)\<rparr>"

definition getActiveRequests :: "world \<Rightarrow> request list" where
  "getActiveRequests w = filter (\<lambda>r. status r \<noteq> COMPLETED \<and> status r \<noteq> EXPIRED) (requests w)"

definition getRequestsForExpiryCheck :: "world \<Rightarrow> request list" where
  "getRequestsForExpiryCheck w = filter (\<lambda>r. status r \<noteq> COMPLETED) (requests w)"

definition createAuditLog ::
  "env \<Rightarrow> nat \<Rightarrow> world \<Rightarrow> string \<Rightarrow> string \<Rightarrow> string \<Rightarrow> string option \<Rightarrow>
   (string \<times> string list) list \<Rightarrow> auditLog outcome \<times> world" where
  "createAuditLog e k w actor act requestId ip metadata =
     (let entry = \<lparr> log_id = autoId e k, log_actorId = actor, log_action = act,
                     log_requestId = requestId, log_timestamp = clock e, log_ip = orNull ip,
                     log_metadata = metadata \<rparr>
      in if sinkAccepts e entry then (Returned entry, w\<lparr>auditLogs := auditLogs w @ [entry]\<rparr>)
         else (Thrown SinkRejected, w))"

text \<open>
  \<^verbatim>\<open>await createAuditLog(...); return v\<close>: the audit write's rejection is thrown on, and
  otherwise \<open>v\<close> is computed in the store the write leaves.
\<close>

definition thenReturn :: "auditLog outcome \<times> world \<Rightarrow> (world \<Rightarrow> 'a) \<Rightarrow> 'a outcome \<times> world" where
  "thenReturn p v = (case p of (Thrown x, w) \<Rightarrow> (Thrown x, w)
                             | (Returned _, w) \<Rightarrow> (Returned (v w), w))"

definition createDocument ::
  "env \<Rightarrow> world \<Rightarrow> string \<Rightarrow> string \<Rightarrow> string \<Rightarrow> document \<times> world" where
  "createDocument e w requestId documentType storagePath =
     (let d = \<lparr> doc_id = autoId e 0, doc_requestId = requestId, doc_type = documentType,
                 doc_storagePath = storagePath, doc_uploadedAt = clock e, doc_checksum = None \<rparr>
      in (d, w\<lparr>documents := documents w @ [d]\<rparr>))"

definition getDocumentsByRequestId :: "world \<Rightarrow> string \<Rightarrow> document list" where
  "getDocumentsByRequestId w requestId =
     rev (sort_key doc_uploadedAt (filter (\<lambda>d. doc_requestId d = requestId) (documents w)))"

definition getDocumentByType :: "world \<Rightarrow> string \<Rightarrow> string \<Rightarrow> document option" where
  "getDocumentByType w requestId documentType =
     find (\<lambda>d. doc_requestId d = requestId \<and> doc_type d = documentType) (documents w)"

definition getDocumentUploadStatus :: "world \<Rightarrow> string \<Rightarrow> (string \<times> bool) list" where
  "getDocumentUploadStatus w requestId =
     (let uploadedTypes = set (map doc_type (getDocumentsByRequestId w requestId))
      in map (\<lambda>t. (t, t \<in> uploadedTypes)) DOCUMENT_TYPES)"

text \<open>
  The return expression of \<^verbatim>\<open>calculateCompletionPercent\<close>,
  \<^verbatim>\<open>Math.round((uploadedCount / requiredTypes.length) * 100)\<close>, for any two counts.
\<close>

definition percentOf :: "nat \<Rightarrow> nat \<Rightarrow> int" where
  "percentOf uploadedCount n = Math_round (fl (fl (of_nat uploadedCount / of_nat n) * 100))"

definition uploadedCount :: "world \<Rightarrow> string \<Rightarrow> nat" where
  "uploadedCount w requestId = length (filter snd (getDocumentUploadStatus w requestId))"

definition calculateCompletionPercent :: "world \<Rightarrow> string \<Rightarrow> int" where
  "calculateCompletionPercent w requestId =
     (let requiredTypes = DOCUMENT_TYPES
      in percentOf (uploadedCount w requestId) (length requiredTypes))"

definition areAllDocumentsUploaded :: "world \<Rightarrow> string \<Rightarrow> bool" where
  "areAllDocumentsUploaded w requestId = list_all snd (getDocumentUploadStatus w requestId)"

subsection \<open>The document service\<close>

definition uploadDocument ::
  "env \<Rightarrow> world \<Rightarrow> string \<Rightarrow> string \<Rightarrow> string \<Rightarrow> string option \<Rightarrow> document outcome \<times> world" where
  "uploadDocument e w requestId documentType fileName actorIp =
     (case getRequestById w requestId of
        None \<Rightarrow> (Thrown (Error ''Request not found''), w)
      | Some request \<Rightarrow>
          if status request = EXPIRED
          then (Thrown (Error ''Cannot upload documents to expired request''), w)
          else if status request = COMPLETED
          then (Thrown (Error ''Cannot upload documents to completed request''), w)
          else if reviewStatus request = APPROVED
          then (Thrown (Error ''Cannot upload documents to approved request''), w)
          else if documentType \<notin> set DOCUMENT_TYPES
          then (Thrown (Error ''Invalid document type''), w)
          else
            let w1 = (case getDocumentByType w requestId documentType of
                        None \<Rightarrow> w
                      | Some existingDoc \<Rightarrow>
                          if doc_id existingDoc \<noteq> []
                          then w\<lparr>documents :=
                                   filter (\<lambda>d. doc_id d \<noteq> doc_id existingDoc) (documents w)\<rparr>
                          else w);
                (doc, w2) = createDocument e w1 requestId documentType fileName;
                percent = calculateCompletionPercent w2 requestId;
                w3 = updateRequest_repo e w2 requestId (\<lambda>r. r\<lparr>completionPercent := percent\<rparr>)
            in thenReturn (createAuditLog e 1 w3 ''customer'' ''CUSTOMER_UPLOADED_DOCUMENT''
                             requestId actorIp [(''documentType'', [documentType])])
                          (\<lambda>_. doc))"

definition submitRequest ::
  "env \<Rightarrow> world \<Rightarrow> string \<Rightarrow> string option \<Rightarrow> request option outcome \<times> world" where
  "submitRequest e w requestId actorIp =
     (case getRequestById w requestId of
        None \<Rightarrow> (Thrown (Error ''Request not found''), w)
      | Some request \<Rightarrow>
          if status request = EXPIRED
          then (Thrown (Error ''Cannot submit expired request''), w)
          else if status request = COMPLETED
          then (Thrown (Error ''Cannot submit completed request''), w)
          else if reviewStatus request = APPROVED
          then (Thrown (Error ''Cannot submit approved request''), w)
          else if \<not> areAllDocumentsUploaded w requestId
          then (Thrown (Error ''All required documents must be uploaded before submission''), w)
          else
            let w1 = updateRequest_repo e w requestId
                       (\<lambda>r. r\<lparr>status := SUBMITTED, completionPercent := 100, reviewStatus := PENDING\<rparr>)
            in thenReturn (createAuditLog e 0 w1 ''customer'' ''CUSTOMER_SUBMITTED'' requestId actorIp [])
                          (\<lambda>w2. getRequestById w2 requestId))"

subsection \<open>The customer portal's submit gate\<close>

text \<open>
  \<^verbatim>\<open>canSubmit\<close> of the customer portal page: \<open>recentlyUploaded\<close> is the page's own set of
  the document types uploaded since the page was loaded or last submitted.
\<close>

definition canSubmit :: "request \<Rightarrow> (string \<times> bool) list \<Rightarrow> string list \<Rightarrow> bool" where
  "canSubmit request documentStatus recentlyUploaded =
     (let allDocumentsUploaded = list_all snd documentStatus;
          allRejectedDocsReuploaded =
            (if reviewStatus request \<noteq> REJECTED then True
             else list_all (\<lambda>docType. docType \<in> set recentlyUploaded) (rejectedSlots request))
      in allDocumentsUploaded \<and> allRejectedDocsReuploaded)"

subsection \<open>The request service\<close>

record requestDetails =
  details_request :: request
  details_documents :: "document list"
  details_documentStatus :: "(string \<times> bool) list"

definition getRequestDetails :: "world \<Rightarrow> string \<Rightarrow> requestDetails option" where
  "getRequestDetails w requestId =
     (case getRequestById w requestId of
        None \<Rightarrow> None
      | Some request \<Rightarrow>
          let documentStatus = getDocumentUploadStatus w requestId;
              showDocuments = (status request \<in> set [SUBMITTED, COMPLETED]
                               \<or> reviewStatus request \<in> set [APPROVED, REJECTED]);
              docs = (if showDocuments then getDocumentsByRequestId w requestId else [])
          in Some \<lparr> details_request = request, details_documents = docs,
                    details_documentStatus = documentStatus \<rparr>)"

record updates =
  u_status :: "string option"
  u_notes :: "string option"

definition statusChange :: "request \<Rightarrow> updates \<Rightarrow> bool" where
  "statusChange currentRequest ups =
     (truthy (u_status ups) \<and> u_status ups \<noteq> Some (status currentRequest))"

definition notesChange :: "request \<Rightarrow> updates \<Rightarrow> bool" where
  "notesChange currentRequest ups =
     (u_notes ups \<noteq> None \<and> u_notes ups \<noteq> Some (request_notes currentRequest))"

text \<open>
  \<^verbatim>\<open>updateData\<close> of \<^verbatim>\<open>updateRequest\<close>: the fields collected by the two
  \<^verbatim>\<open>if\<close> blocks.
\<close>

definition updateData :: "request \<Rightarrow> updates \<Rightarrow> request \<Rightarrow> request" where
  "updateData currentRequest ups r =
     (let r1 = (case u_status ups of
                  None \<Rightarrow> r
                | Some s \<Rightarrow> if statusChange currentRequest ups then r\<lparr>status := s\<rparr> else r)
      in case u_notes ups of
           None \<Rightarrow> r1
         | Some n \<Rightarrow> if notesChange currentRequest ups then r1\<lparr>request_notes := n\<rparr> else r1)"

text \<open>An awaited audit write whose value the caller drops: what it throws, if it throws.\<close>

definition awaited :: "auditLog outcome \<times> world \<Rightarrow> error option \<times> world" where
  "awaited p = (case p of (Thrown x, w) \<Rightarrow> (Some x, w) | (Returned _, w) \<Rightarrow> (None, w))"

definition updateRequest ::
  "env \<Rightarrow> world \<Rightarrow> string \<Rightarrow> updates \<Rightarrow> string \<Rightarrow> string option \<Rightarrow> request option outcome \<times> world" where
  "updateRequest e w requestId ups actorId actorIp =
     (case getRequestById w requestId of
        None \<Rightarrow> (Thrown (Error ''Request not found''), w)
      | Some currentRequest \<Rightarrow>
          if statusChange currentRequest ups \<and> status currentRequest = EXPIRED
             \<and> u_status ups \<noteq> Some OPEN
          then (Thrown (Error ''Expired requests can only be reopened (set to OPEN)''), w)
          else
            case (if statusChange currentRequest ups
                  then awaited (createAuditLog e 0 w actorId ''STATUS_CHANGED'' requestId actorIp
                         [(''oldStatus'', [status currentRequest]),
                          (''newStatus'', (case u_status ups of None \<Rightarrow> [] | Some s \<Rightarrow> [s]))])
                  else (None, w)) of
              (Some x, w1) \<Rightarrow> (Thrown x, w1)
            | (None, w1) \<Rightarrow>
                (case (if notesChange currentRequest ups
                       then awaited (createAuditLog e 1 w1 actorId ''NOTES_UPDATED'' requestId actorIp [])
                       else (None, w1)) of
                   (Some x, w2) \<Rightarrow> (Thrown x, w2)
                 | (None, w2) \<Rightarrow>
                     if \<not> statusChange currentRequest ups \<and> \<not> notesChange currentRequest ups
                     then (Returned (Some currentRequest), w2)
                     else
                       let w3 = updateRequest_repo e w2 requestId (updateData currentRequest ups)
                       in (Returned (getRequestById w3 requestId), w3)))"

definition markReminderConfirmed ::
  "env \<Rightarrow> world \<Rightarrow> string \<Rightarrow> string \<Rightarrow> string option \<Rightarrow> request option outcome \<times> world" where
  "markReminderConfirmed e w requestId actorId actorIp =
     (case getRequestById w requestId of
        None \<Rightarrow> (Thrown (Error ''Request not found''), w)
      | Some request \<Rightarrow>
          if status request = EXPIRED
          then (Thrown (Error ''Cannot confirm reminder for expired request''), w)
          else
            let w1 = updateRequest_repo e w requestId
                       (\<lambda>r. r\<lparr>needsReminderLevel := 0, lastReminderAt := Some (clock e)\<rparr>)
            in thenReturn (createAuditLog e 0 w1 actorId ''REMINDER_CONFIRMED'' requestId actorIp [])
                          (\<lambda>w2. getRequestById w2 requestId))"

definition reopenRequest ::
  "env \<Rightarrow> world \<Rightarrow> string \<Rightarrow> string \<Rightarrow> string option \<Rightarrow> request option outcome \<times> world" where
  "reopenRequest e w requestId actorId actorIp =
     (case getRequestById w requestId of
        None \<Rightarrow> (Thrown (Error ''Request not found''), w)
      | Some request \<Rightarrow>
          if status request \<noteq> EXPIRED
          then (Thrown (Error ''Can only reopen expired requests''), w)
          else
            let w1 = updateRequest_repo e w requestId
                       (\<lambda>r. r\<lparr>status := OPEN, expiredAt := None, needsReminderLevel := 0,
                               lastReminderAt := None\<rparr>)
            in thenReturn (createAuditLog e 0 w1 actorId ''REQUEST_REOPENED'' requestId actorIp [])
                          (\<lambda>w2. getRequestById w2 requestId))"

text \<open>
  \<^verbatim>\<open>updateData\<close> of \<^verbatim>\<open>reviewRequest\<close>: the four review fields, then the status
  and the rejected document types by decision.
\<close>

definition reviewData ::
  "env \<Rightarrow> string \<Rightarrow> string option \<Rightarrow> string \<Rightarrow> string list \<Rightarrow> request \<Rightarrow> request" where
  "reviewData e decision comment actorId rejectedTypes r =
     (let r1 = r\<lparr>reviewStatus := (if decision = ''APPROVE'' then APPROVED else REJECTED),
                  reviewComment := orNull comment,
                  reviewedBy := Some actorId,
                  reviewedAt := Some (clock e)\<rparr>
      in if decision = ''APPROVE''
         then r1\<lparr>status := COMPLETED, rejectedDocumentTypes := Some []\<rparr>
         else if decision = ''REJECT''
         then r1\<lparr>status := IN_PROGRESS, rejectedDocumentTypes := Some rejectedTypes\<rparr>
         else r1)"

definition reviewRequest ::
  "env \<Rightarrow> world \<Rightarrow> string \<Rightarrow> string \<Rightarrow> string option \<Rightarrow> string \<Rightarrow> string option \<Rightarrow> string list \<Rightarrow>
   request option outcome \<times> world" where
  "reviewRequest e w requestId decision comment actorId actorIp rejectedTypes =
     (case getRequestById w requestId of
        None \<Rightarrow> (Thrown (Error ''Request not found''), w)
      | Some request \<Rightarrow>
          if status request \<noteq> SUBMITTED
          then (Thrown (Error ''Can only review submitted requests''), w)
          else if decision = ''REJECT'' \<and> \<not> truthy comment
          then (Thrown (Error ''Rejection comment is required''), w)
          else if decision = ''REJECT'' \<and> rejectedTypes = []
          then (Thrown (Error ''At least one document must be selected for the customer to re-upload''), w)
          else
            let w1 = updateRequest_repo e w requestId
                       (reviewData e decision comment actorId rejectedTypes)
            in thenReturn
                 (createAuditLog e 0 w1 actorId
                    (if decision = ''APPROVE'' then ''REVIEW_APPROVED'' else ''REVIEW_REJECTED'')
                    requestId actorIp
                    [(''comment'', (case comment of None \<Rightarrow> [] | Some c \<Rightarrow> [c])),
                     (''rejectedDocumentTypes'', rejectedTypes)])
                 (\<lambda>w2. getRequestById w2 requestId))"

subsection \<open>The scheduled jobs\<close>

text \<open>
  \<^verbatim>\<open>hoursBetween\<close>: the subtraction of two dates and the division are each rounded to
  binary64.
\<close>

definition hoursBetween :: "time \<Rightarrow> time \<Rightarrow> rat" where
  "hoursBetween date1 date2 = fl (\<bar>fl (of_int (date2 - date1))\<bar> / 3600000)"

definition SLA_HOURS :: rat where "SLA_HOURS = 144"

text \<open>The body of the loop of \<^verbatim>\<open>processExpiry\<close>, for one request of the snapshot.\<close>

definition expiryStep :: "env \<Rightarrow> request \<Rightarrow> world \<Rightarrow> world" where
  "expiryStep e request w =
     (if status request = EXPIRED then w
      else if SLA_HOURS \<le> hoursBetween (createdAt request) (clock e)
      then updateRequest_repo e w (rid request)
             (\<lambda>r. r\<lparr>status := EXPIRED, expiredAt := Some (clock e)\<rparr>)
      else w)"

definition processExpiry :: "env \<Rightarrow> world \<Rightarrow> world" where
  "processExpiry e w = fold (expiryStep e) (getRequestsForExpiryCheck w) w"

text \<open>The body of the loop of \<^verbatim>\<open>processReminders\<close>, for one request of the snapshot.\<close>

definition reminderStep :: "env \<Rightarrow> request \<Rightarrow> world \<Rightarrow> world" where
  "reminderStep e request w =
     (if status request \<notin> set [OPEN, IN_PROGRESS, SUBMITTED] then w
      else if needsReminderLevel request = REMINDER_LEVEL_NONE
      then (if 24 \<le> hoursBetween (createdAt request) (clock e)
            then updateRequest_repo e w (rid request)
                   (\<lambda>r. r\<lparr>needsReminderLevel := REMINDER_LEVEL_FIRST\<rparr>)
            else w)
      else if needsReminderLevel request = REMINDER_LEVEL_FIRST
      then (case lastReminderAt request of
              None \<Rightarrow> w
            | Some lastReminder \<Rightarrow>
                if 48 \<le> hoursBetween lastReminder (clock e)
                then updateRequest_repo e w (rid request)
                       (\<lambda>r. r\<lparr>needsReminderLevel := REMINDER_LEVEL_SECOND\<rparr>)
                else w)
      else w)"

definition processReminders :: "env \<Rightarrow> world \<Rightarrow> world" where
  "processReminders e w = fold (reminderStep e) (getActiveRequests w) w"

subsection \<open>Operations\<close>

text \<open>
  The mutating entry points as one type, so that a property can be stated of every
  operation and of sequences of operations. \<open>run\<close> keeps what the call throws and the
  store it leaves. The two jobs catch every error and write no audit record.
\<close>

datatype operation =
    Upload string string string "string option"
  | Submit string "string option"
  | OwnerEdit string updates string "string option"
  | ConfirmReminder string string "string option"
  | Reopen string string "string option"
  | Review string string "string option" string "string option" "string list"
  | ExpiryJob
  | ReminderJob

definition thrown :: "'a outcome \<Rightarrow> error option" where
  "thrown x = (case x of Returned _ \<Rightarrow> None | Thrown err \<Rightarrow> Some err)"

fun run :: "env \<Rightarrow> operation \<Rightarrow> world \<Rightarrow> error option \<times> world" where
  "run e (Upload i t f ip) w = (thrown (fst (uploadDocument e w i t f ip)), snd (uploadDocument e w i t f ip))"
| "run e (Submit i ip) w = (thrown (fst (submitRequest e w i ip)), snd (submitRequest e w i ip))"
| "run e (OwnerEdit i ups a ip) w =
     (thrown (fst (updateRequest e w i ups a ip)), snd (updateRequest e w i ups a ip))"
| "run e (ConfirmReminder i a ip) w =
     (thrown (fst (markReminderConfirmed e w i a ip)), snd (markReminderConfirmed e w i a ip))"
| "run e (Reopen i a ip) w = (thrown (fst (reopenRequest e w i a ip)), snd (reopenRequest e w i a ip))"
| "run e (Review i d c a ip ts) w =
     (thrown (fst (reviewRequest e w i d c a ip ts)), snd (reviewRequest e w i d c a ip ts))"
| "run e ExpiryJob w = (None, processExpiry e w)"
| "run e ReminderJob w = (None, processReminders e w)"

fun runAll :: "(env \<times> operation) list \<Rightarrow> world \<Rightarrow> error option list \<times> world" where
  "runAll [] w = ([], w)"
| "runAll ((e, opn) # rest) w =
     (fst (run e opn w) # fst (runAll rest (snd (run e opn w))), snd (runAll rest (snd (run e opn w))))"

text \<open>The operations that write their audit record after the store.\<close>

fun auditsAfterWrite :: "operation \<Rightarrow> bool" where
  "auditsAfterWrite (Upload i t f ip) = True"
| "auditsAfterWrite (Submit i ip) = True"
| "auditsAfterWrite (ConfirmReminder i a ip) = True"
| "auditsAfterWrite (Reopen i a ip) = True"
| "auditsAfterWrite (Review i d c a ip ts) = True"
| "auditsAfterWrite (OwnerEdit i ups a ip) = False"
| "auditsAfterWrite ExpiryJob = False"
| "auditsAfterWrite ReminderJob = False"

definition sinkUp :: "env \<Rightarrow> env" where
  "sinkUp e = e\<lparr>sinkAccepts := (\<lambda>_. True)\<rparr>"

definition sinkDown :: "env \<Rightarrow> env" where
  "sinkDown e = e\<lparr>sinkAccepts := (\<lambda>_. False)\<rparr>"

text \<open>
  The relation between the review fields and the rejected document types that the code
  maintains: a request carries rejected document types only if it has been reviewed and
  its review status is REJECTED or, after a resubmission, PENDING.
\<close>

definition slotsAfterRejection :: "request \<Rightarrow> bool" where
  "slotsAfterRejection r =
     (rejectedSlots r \<noteq> [] \<longrightarrow>
        reviewedAt r \<noteq> None \<and> (reviewStatus r = REJECTED \<or> reviewStatus r = PENDING))"

definition slotsInvariant :: "world \<Rightarrow> bool" where
  "slotsInvariant w = list_all slotsAfterRejection (requests w)"

text \<open>
  The re-upload condition of the specification: every rejected document type has a
  document uploaded after the review.
\<close>

definition reuploadedSinceRejection :: "world \<Rightarrow> request \<Rightarrow> bool" where
  "reuploadedSinceRejection w r =
     list_all (\<lambda>t. list_ex (\<lambda>d. doc_requestId d = rid r \<and> doc_type d = t
                               \<and> (case reviewedAt r of None \<Rightarrow> True | Some reviewed \<Rightarrow> reviewed < doc_uploadedAt d))
                          (documents w))
              (rejectedSlots r)"

subsection \<open>The effect of the reminder job on one request\<close>

text \<open>
  What one run of the reminder job does to one request of the store, written without the
  loop; the job is shown below to apply \<open>remindCase\<close> to every request.
\<close>

definition reminderEligible :: "request \<Rightarrow> bool" where
  "reminderEligible r = (status r \<in> set [OPEN, IN_PROGRESS, SUBMITTED])"

definition firstReminderDue :: "env \<Rightarrow> request \<Rightarrow> bool" where
  "firstReminderDue e r =
     (reminderEligible r \<and> needsReminderLevel r = 0 \<and> 86400000 \<le> \<bar>clock e - createdAt r\<bar>)"

definition ackedLongAgo :: "env \<Rightarrow> request \<Rightarrow> bool" where
  "ackedLongAgo e r =
     (case lastReminderAt r of None \<Rightarrow> False | Some t \<Rightarrow> 172800000 \<le> \<bar>clock e - t\<bar>)"

definition secondReminderDue :: "env \<Rightarrow> request \<Rightarrow> bool" where
  "secondReminderDue e r = (reminderEligible r \<and> needsReminderLevel r = 1 \<and> ackedLongAgo e r)"

definition remindCase :: "env \<Rightarrow> request \<Rightarrow> request" where
  "remindCase e r =
     (if firstReminderDue e r then r\<lparr>needsReminderLevel := 1, updatedAt := clock e\<rparr>
      else if secondReminderDue e r then r\<lparr>needsReminderLevel := 2, updatedAt := clock e\<rparr>
      else r)"

subsection \<open>Sample states\<close>

text \<open>Concrete requests, stores and environments at which the theorems below are evaluated.\<close>

definition sampleEnv :: "time \<Rightarrow> bool \<Rightarrow> env" where
  "sampleEnv now up = \<lparr> clock = now, autoId = (\<lambda>k. replicate (Suc k) CHR ''n''),
                          sinkAccepts = (\<lambda>_. up) \<rparr>"

definition sampleRequest :: "string \<Rightarrow> string \<Rightarrow> time \<Rightarrow> request" where
  "sampleRequest i st created =
     (createRequestModel (sampleEnv created True) i ''agent-1'' ''token-1'' [])\<lparr>status := st\<rparr>"

definition expiryWorld :: world where
  "expiryWorld =
     \<lparr> requests = [sampleRequest ''r1'' OPEN 81601000, sampleRequest ''r2'' OPEN 81600000,
                    sampleRequest ''r3'' COMPLETED 0],
       documents = [], auditLogs = [] \<rparr>"

definition ackedRequest :: "string \<Rightarrow> time \<Rightarrow> time \<Rightarrow> request" where
  "ackedRequest i created acked = (sampleRequest i OPEN created)\<lparr>lastReminderAt := Some acked\<rparr>"

definition reminderWorld :: world where
  "reminderWorld =
     \<lparr> requests = [sampleRequest ''r1'' OPEN 86460000, sampleRequest ''r2'' OPEN 86400000,
                    (ackedRequest ''r3'' 0 0)\<lparr>needsReminderLevel := 1\<rparr>,
                    (ackedRequest ''r4'' 0 1000)\<lparr>needsReminderLevel := 1\<rparr>,
                    (sampleRequest ''r5'' SUBMITTED 0)\<lparr>needsReminderLevel := 1\<rparr>],
       documents = [], auditLogs = [] \<rparr>"

definition staleAckWorld :: world where
  "staleAckWorld = \<lparr> requests = [ackedRequest ''r1'' 0 0], documents = [], auditLogs = [] \<rparr>"

definition sampleDocs :: "string \<Rightarrow> time \<Rightarrow> document list" where
  "sampleDocs i uploaded =
     map (\<lambda>t. \<lparr> doc_id = ''doc-'' @ t, doc_requestId = i, doc_type = t,
                 doc_storagePath = ''requests/'' @ i @ ''/'' @ t, doc_uploadedAt = uploaded,
                 doc_checksum = None \<rparr>)
         DOCUMENT_TYPES"

definition submittedWorld :: world where
  "submittedWorld =
     \<lparr> requests = [(sampleRequest ''r1'' SUBMITTED 0)\<lparr>completionPercent := 100\<rparr>],
       documents = sampleDocs ''r1'' 500, auditLogs = [] \<rparr>"

definition completedWorld :: world where
  "completedWorld =
     \<lparr> requests = [(sampleRequest ''r1'' COMPLETED 0)\<lparr>needsReminderLevel := 1, reviewStatus := APPROVED\<rparr>],
       documents = sampleDocs ''r1'' 500, auditLogs = [] \<rparr>"

definition openWorld :: world where
  "openWorld = \<lparr> requests = [sampleRequest ''r1'' OPEN 0], documents = [], auditLogs = [] \<rparr>"

definition expiredWorld :: world where
  "expiredWorld =
     \<lparr> requests = [(sampleRequest ''r1'' EXPIRED 0)\<lparr>expiredAt := Some 518400000\<rparr>],
       documents = [], auditLogs = [] \<rparr>"

definition statusEdit :: "string \<Rightarrow> updates" where
  "statusEdit t = \<lparr> u_status = Some t, u_notes = None \<rparr>"

definition uploadingWorld :: world where
  "uploadingWorld =
     \<lparr> requests = [(sampleRequest ''r1'' IN_PROGRESS 0)\<lparr>completionPercent := 100,
                                                            updatedAt := 500\<rparr>],
       documents = sampleDocs ''r1'' 500, auditLogs = [] \<rparr>"

definition rejectedRequest :: request where
  "rejectedRequest =
     (sampleRequest ''r1'' IN_PROGRESS 0)
       \<lparr>updatedAt := 2000, completionPercent := 100, reviewStatus := REJECTED,
        reviewComment := Some ''fix ID and proof'', reviewedBy := Some ''agent-1'',
        reviewedAt := Some 2000,
        rejectedDocumentTypes := Some [''ID'', ''PROOF_OF_ADDRESS'']\<rparr>"

definition rejectedWorld :: world where
  "rejectedWorld =
     \<lparr> requests = [rejectedRequest], documents = sampleDocs ''r1'' 500, auditLogs = [] \<rparr>"

definition reuploaded :: "string list \<Rightarrow> time \<Rightarrow> world \<Rightarrow> world" where
  "reuploaded ts uploaded w =
     w\<lparr>documents := map (\<lambda>d. if doc_type d \<in> set ts then d\<lparr>doc_uploadedAt := uploaded\<rparr> else d)
                          (documents w)\<rparr>"

section \<open>Properties of the embedding\<close>

subsection \<open>Rounding to binary64 is monotone\<close>

lemma expo_bounds_ge1:
  assumes "1 \<le> q"
  shows "2 powi (expo q) \<le> q \<and> q < 2 powi (expo q + 1)"
proof -
  let ?n = "\<lfloor>q\<rfloor>"
  have n1: "1 \<le> ?n" using assms by simp
  then have pos: "0 < ?n" by simp
  have bl: "1 \<le> bitlen ?n" using pos by (simp add: bitlen_alt_def)
  from bitlen_bounds[OF pos]
  have lo: "2 ^ nat (bitlen ?n - 1) \<le> ?n" and hi: "?n < 2 ^ nat (bitlen ?n)" by auto
  have e: "expo q = bitlen ?n - 1" using assms by (simp add: expo_def)
  have "(2::rat) powi (expo q) = 2 ^ nat (bitlen ?n - 1)"
    using bl by (simp add: e power_int_def)
  also have "\<dots> = of_int (2 ^ nat (bitlen ?n - 1))" by simp
  also have "\<dots> \<le> of_int ?n" using lo by (simp only: of_int_le_iff)
  also have "\<dots> \<le> q" by simp
  finally have A: "2 powi (expo q) \<le> q" .
  have "?n + 1 \<le> 2 ^ nat (bitlen ?n)" using hi by simp
  then have "(of_int (?n + 1) :: rat) \<le> of_int (2 ^ nat (bitlen ?n))" by (simp only: of_int_le_iff)
  moreover have "q < of_int (?n + 1)" by simp linarith
  ultimately have "q < of_int (2 ^ nat (bitlen ?n))" by linarith
  also have "\<dots> = 2 powi (expo q + 1)" using bl by (simp add: e power_int_def)
  finally show ?thesis using A by simp
qed

lemma expo_bounds_lt1:
  assumes "0 < q" "q < 1"
  shows "2 powi (expo q) \<le> q \<and> q < 2 powi (expo q + 1)"
proof -
  define r where "r = 1 / q"
  define M where "M = \<lceil>r\<rceil> - 1"
  define b where "b = nat (bitlen M)"
  have r1: "1 < r" using assms by (simp add: r_def)
  then have "1 < \<lceil>r\<rceil>" by (simp add: less_ceiling_iff)
  then have pos: "0 < M" by (simp add: M_def)
  have bl: "1 \<le> bitlen M" using pos by (simp add: bitlen_alt_def)
  then have b1: "1 \<le> b" and bb: "bitlen M = int b" by (simp_all add: b_def)
  from bitlen_bounds[OF pos]
  have lo: "2 ^ (b - 1) \<le> M" and hi: "M < 2 ^ b"
    using bl by (simp_all add: b_def nat_diff_distrib)
  have e: "expo q = - int b" using assms by (simp add: expo_def M_def r_def bb[symmetric])
  have rM: "r \<le> of_int (M + 1)" "of_int M < r"
    unfolding M_def by (simp, linarith)
  have "M + 1 \<le> 2 ^ b" using hi by simp
  then have "(of_int (M + 1) :: rat) \<le> 2 ^ b"
    using of_int_le_iff[where ?'a = rat, of "M + 1" "2 ^ b"] by simp
  then have "r \<le> 2 ^ b" using rM(1) by linarith
  then have "1 \<le> q * 2 ^ b" using assms by (simp add: r_def field_simps)
  then have "1 / 2 ^ b \<le> q" by (simp add: field_simps)
  moreover have "(2::rat) powi (expo q) = 1 / 2 ^ b"
    by (simp add: e power_int_minus field_simps)
  ultimately have A: "2 powi (expo q) \<le> q" by simp
  have "(2::rat) ^ (b - 1) \<le> of_int M"
    using lo of_int_le_iff[where ?'a = rat, of "2 ^ (b - 1)" M] by simp
  then have "2 ^ (b - 1) < r" using rM(2) by linarith
  then have "q * 2 ^ (b - 1) < 1" using assms by (simp add: r_def field_simps)
  then have "q < 1 / 2 ^ (b - 1)" by (simp add: field_simps)
  moreover have "(2::rat) powi (expo q + 1) = 1 / 2 ^ (b - 1)"
  proof -
    have "expo q + 1 = - int (b - 1)" using b1 by (simp add: e)
    then show ?thesis by (simp only: power_int_minus power_int_of_nat) (simp add: field_simps)
  qed
  ultimately show ?thesis using A by simp
qed

lemma expo_bounds:
  assumes "0 < q"
  shows "2 powi (expo q) \<le> q \<and> q < 2 powi (expo q + 1)"
  using assms expo_bounds_ge1 expo_bounds_lt1 by (cases "1 \<le> q") auto


lemma expo_mono:
  assumes "0 < q" "q \<le> q'"
  shows "expo q \<le> expo q'"
proof (rule ccontr)
  assume "\<not> expo q \<le> expo q'"
  then have "expo q' + 1 \<le> expo q" by simp
  then have "(2::rat) powi (expo q' + 1) \<le> 2 powi (expo q)"
    by (intro power_int_increasing) simp_all
  also have "\<dots> \<le> q" using expo_bounds[OF assms(1)] by simp
  also have "\<dots> \<le> q'" by fact
  also have "\<dots> < 2 powi (expo q' + 1)" using expo_bounds[of q'] assms by simp
  finally show False by simp
qed

lemma roundHalfEven_of_int: "roundHalfEven (of_int n) = n"
  by (simp add: roundHalfEven_def)

lemma roundHalfEven_mono:
  assumes "m \<le> m'"
  shows "roundHalfEven m \<le> roundHalfEven m'"
proof -
  have f: "\<lfloor>m\<rfloor> \<le> \<lfloor>m'\<rfloor>" using assms by (rule floor_mono)
  show ?thesis
  proof (cases "\<lfloor>m\<rfloor> = \<lfloor>m'\<rfloor>")
    case True
    then have "m - of_int \<lfloor>m\<rfloor> \<le> m' - of_int \<lfloor>m'\<rfloor>" using assms by simp
    then show ?thesis using True by (auto simp: roundHalfEven_def Let_def)
  next
    case False
    then have "\<lfloor>m\<rfloor> + 1 \<le> \<lfloor>m'\<rfloor>" using f by simp
    moreover have "roundHalfEven m \<le> \<lfloor>m\<rfloor> + 1" by (simp add: roundHalfEven_def Let_def)
    moreover have "\<lfloor>m'\<rfloor> \<le> roundHalfEven m'" by (simp add: roundHalfEven_def Let_def)
    ultimately show ?thesis by linarith
  qed
qed

lemma roundHalfEven_ge: "of_int n \<le> m \<Longrightarrow> n \<le> roundHalfEven m"
  using roundHalfEven_mono[of "of_int n" m] by (simp add: roundHalfEven_of_int)

lemma roundHalfEven_le: "m \<le> of_int n \<Longrightarrow> roundHalfEven m \<le> n"
  using roundHalfEven_mono[of m "of_int n"] by (simp add: roundHalfEven_of_int)

lemma fl_pos:
  "0 < q \<Longrightarrow> fl q = of_int (roundHalfEven (q / 2 powi (expo q - 52))) * 2 powi (expo q - 52)"
  by (simp add: fl_def Let_def)

lemma fl_bounds:
  assumes "0 < q"
  shows "2 powi (expo q) \<le> fl q \<and> fl q \<le> 2 powi (expo q + 1)"
proof -
  define u :: rat where "u = 2 powi (expo q - 52)"
  define m where "m = q / u"
  have u0: "0 < u" by (simp add: u_def)
  have lo: "2 powi (expo q) = 2 ^ 52 * u"
    using power_int_add[of "2::rat" 52 "expo q - 52"] by (simp add: u_def)
  have hi: "2 powi (expo q + 1) = 2 ^ 53 * u"
    using power_int_add[of "2::rat" 53 "expo q - 52"] by (simp add: u_def add.commute)
  have "2 ^ 52 * u \<le> q" "q < 2 ^ 53 * u"
    using expo_bounds[OF assms] lo hi by simp_all
  then have "2 ^ 52 \<le> m" "m \<le> 2 ^ 53" using u0 by (simp_all add: m_def field_simps)
  then have "of_int (2 ^ 52) \<le> m" "m \<le> of_int (2 ^ 53)" by simp_all
  then have "2 ^ 52 \<le> roundHalfEven m" "roundHalfEven m \<le> 2 ^ 53"
    using roundHalfEven_ge[of "2 ^ 52" m] roundHalfEven_le[of m "2 ^ 53"] by blast+
  then have "(of_int (2 ^ 52) :: rat) \<le> of_int (roundHalfEven m)"
            "(of_int (roundHalfEven m) :: rat) \<le> of_int (2 ^ 53)"
    by (simp_all only: of_int_le_iff)
  then have "2 ^ 52 * u \<le> of_int (roundHalfEven m) * u" "of_int (roundHalfEven m) * u \<le> 2 ^ 53 * u"
    using u0 by simp_all
  moreover have "fl q = of_int (roundHalfEven m) * u"
    using assms by (simp add: fl_pos m_def u_def)
  ultimately show ?thesis using lo hi by simp
qed

lemma fl_mono_pos:
  assumes "0 < q" "q \<le> q'"
  shows "fl q \<le> fl q'"
proof (cases "expo q = expo q'")
  case True
  define u :: rat where "u = 2 powi (expo q - 52)"
  have u0: "0 < u" by (simp add: u_def)
  have "q / u \<le> q' / u" using assms u0 by (simp add: divide_right_mono)
  then have "roundHalfEven (q / u) \<le> roundHalfEven (q' / u)" by (rule roundHalfEven_mono)
  then have "(of_int (roundHalfEven (q / u)) :: rat) \<le> of_int (roundHalfEven (q' / u))"
    by (simp only: of_int_le_iff)
  then have "of_int (roundHalfEven (q / u)) * u \<le> of_int (roundHalfEven (q' / u)) * u"
    using u0 by simp
  moreover have "fl q = of_int (roundHalfEven (q / u)) * u" using assms by (simp add: fl_pos u_def)
  moreover have "fl q' = of_int (roundHalfEven (q' / u)) * u"
    using assms True by (simp add: fl_pos u_def)
  ultimately show ?thesis by simp
next
  case False
  then have "expo q + 1 \<le> expo q'" using expo_mono[OF assms] by simp
  then have "(2::rat) powi (expo q + 1) \<le> 2 powi (expo q')"
    by (intro power_int_increasing) simp_all
  moreover have "fl q \<le> 2 powi (expo q + 1)" using fl_bounds[OF assms(1)] by simp
  moreover have "2 powi (expo q') \<le> fl q'" using fl_bounds[of q'] assms by simp
  ultimately show ?thesis by linarith
qed

lemma fl_nonneg: "0 \<le> q \<Longrightarrow> 0 \<le> fl q"
proof (cases "q = 0")
  case True then show ?thesis by (simp add: fl_def)
next
  case False
  assume "0 \<le> q"
  with False have "0 < q" by simp
  from fl_bounds[OF this] have "2 powi (expo q) \<le> fl q" by simp
  moreover have "(0::rat) < 2 powi (expo q)" by simp
  ultimately show ?thesis by linarith
qed

lemma fl_mono:
  assumes "0 \<le> q" "q \<le> q'"
  shows "fl q \<le> fl q'"
proof (cases "q = 0")
  case True
  then show ?thesis using fl_nonneg[of q'] assms by (simp add: fl_def)
next
  case False
  then show ?thesis using assms fl_mono_pos by simp
qed

lemma fl_minus: "fl (- q) = - fl q"
  by (simp add: fl_def Let_def)

lemma fl_abs: "\<bar>fl q\<bar> = fl \<bar>q\<bar>"
proof (cases "0 \<le> q")
  case True
  then show ?thesis using fl_nonneg[of q] by simp
next
  case False
  then have "0 \<le> - q" by simp
  from fl_nonneg[OF this] have "fl q \<le> 0" by (simp add: fl_minus)
  then show ?thesis using False by (simp add: fl_minus abs_if)
qed

lemma hoursBetween_mono:
  assumes "\<bar>b - a\<bar> \<le> \<bar>d - c\<bar>"
  shows "hoursBetween a b \<le> hoursBetween c d"
proof -
  have "(of_int \<bar>b - a\<bar> :: rat) \<le> of_int \<bar>d - c\<bar>" using assms by (simp only: of_int_le_iff)
  then have "fl (of_int \<bar>b - a\<bar>) \<le> fl (of_int \<bar>d - c\<bar>)" by (intro fl_mono) simp_all
  then have "fl \<bar>of_int (b - a)\<bar> / 3600000 \<le> fl \<bar>of_int (d - c)\<bar> / 3600000"
    by (simp add: divide_right_mono)
  moreover have "0 \<le> fl \<bar>of_int (b - a) :: rat\<bar> / 3600000" by (simp add: fl_nonneg)
  ultimately show ?thesis unfolding hoursBetween_def fl_abs by (rule fl_mono[rotated])
qed

lemma hoursBetween_threshold:
  assumes "h \<le> hoursBetween 0 T" "hoursBetween 0 (T - 1) < h" "0 < T"
  shows "h \<le> hoursBetween a b \<longleftrightarrow> T \<le> \<bar>b - a\<bar>"
proof
  assume "T \<le> \<bar>b - a\<bar>"
  then have "hoursBetween 0 T \<le> hoursBetween a b" using assms(3) by (intro hoursBetween_mono) simp
  then show "h \<le> hoursBetween a b" using assms(1) by linarith
next
  assume h: "h \<le> hoursBetween a b"
  show "T \<le> \<bar>b - a\<bar>"
  proof (rule ccontr)
    assume "\<not> T \<le> \<bar>b - a\<bar>"
    then have "\<bar>b - a\<bar> \<le> \<bar>(T - 1) - 0\<bar>" using assms(3) by simp
    then have "hoursBetween a b \<le> hoursBetween 0 (T - 1)" by (rule hoursBetween_mono)
    then show False using h assms(2) by linarith
  qed
qed

lemma hoursBetween_at_thresholds:
  "hoursBetween 0 86400000 = 24" "hoursBetween 0 (86400000 - 1) < 24"
  "hoursBetween 0 172800000 = 48" "hoursBetween 0 (172800000 - 1) < 48"
  "hoursBetween 0 518400000 = 144" "hoursBetween 0 (518400000 - 1) < 144"
  by code_simp+

lemma hoursBetween_24: "24 \<le> hoursBetween a b \<longleftrightarrow> 86400000 \<le> \<bar>b - a\<bar>"
  using hoursBetween_threshold[of 24 86400000 a b] hoursBetween_at_thresholds by simp

lemma hoursBetween_48: "48 \<le> hoursBetween a b \<longleftrightarrow> 172800000 \<le> \<bar>b - a\<bar>"
  using hoursBetween_threshold[of 48 172800000 a b] hoursBetween_at_thresholds by simp

lemma hoursBetween_144: "SLA_HOURS \<le> hoursBetween a b \<longleftrightarrow> 518400000 \<le> \<bar>b - a\<bar>"
  using hoursBetween_threshold[of 144 518400000 a b] hoursBetween_at_thresholds
  by (simp add: SLA_HOURS_def)

subsection \<open>Constants and the request store\<close>

lemma status_distinct [simp]:
  "OPEN \<noteq> IN_PROGRESS" "OPEN \<noteq> SUBMITTED" "OPEN \<noteq> COMPLETED" "OPEN \<noteq> EXPIRED"
  "IN_PROGRESS \<noteq> OPEN" "IN_PROGRESS \<noteq> SUBMITTED" "IN_PROGRESS \<noteq> COMPLETED" "IN_PROGRESS \<noteq> EXPIRED"
  "SUBMITTED \<noteq> OPEN" "SUBMITTED \<noteq> IN_PROGRESS" "SUBMITTED \<noteq> COMPLETED" "SUBMITTED \<noteq> EXPIRED"
  "COMPLETED \<noteq> OPEN" "COMPLETED \<noteq> IN_PROGRESS" "COMPLETED \<noteq> SUBMITTED" "COMPLETED \<noteq> EXPIRED"
  "EXPIRED \<noteq> OPEN" "EXPIRED \<noteq> IN_PROGRESS" "EXPIRED \<noteq> SUBMITTED" "EXPIRED \<noteq> COMPLETED"
  by (simp_all add: OPEN_def IN_PROGRESS_def SUBMITTED_def COMPLETED_def EXPIRED_def)

lemma review_distinct [simp]:
  "PENDING \<noteq> APPROVED" "PENDING \<noteq> REJECTED" "APPROVED \<noteq> PENDING" "APPROVED \<noteq> REJECTED"
  "REJECTED \<noteq> PENDING" "REJECTED \<noteq> APPROVED"
  by (simp_all add: PENDING_def APPROVED_def REJECTED_def)

lemma find_rid_None: "rid x \<notin> rid ` set xs \<Longrightarrow> find (\<lambda>y. rid y = rid x) xs = None"
  by (induction xs) auto

lemma find_rid_filter:
  assumes "distinct (map rid rs)" "r \<in> set rs"
  shows "find (\<lambda>x. rid x = rid r) (filter P rs) = (if P r then Some r else None)"
  using assms
proof (induction rs)
  case Nil
  then show ?case by simp
next
  case (Cons a rs)
  show ?case
  proof (cases "a = r")
    case True
    have "rid r \<notin> rid ` set (filter P rs)" using Cons.prems True by auto
    then have "find (\<lambda>x. rid x = rid r) (filter P rs) = None" by (rule find_rid_None)
    then show ?thesis using True by simp
  next
    case False
    then have "r \<in> set rs" "rid a \<noteq> rid r" using Cons.prems by auto
    then show ?thesis using Cons by simp
  qed
qed

lemma fold_updateRequest:
  assumes "distinct (map rid xs)" and F: "\<And>x r. rid (F x r) = rid r"
  shows "fold (\<lambda>x w. if G x then updateRequest_repo e w (rid x) (F x) else w) xs w =
         w\<lparr>requests := map (\<lambda>r. case find (\<lambda>x. rid x = rid r) xs of
                                   None \<Rightarrow> r
                                 | Some x \<Rightarrow> if G x then (F x r)\<lparr>updatedAt := clock e\<rparr> else r)
                            (requests w)\<rparr>"
  using assms(1)
proof (induction xs arbitrary: w)
  case Nil
  then show ?case by simp
next
  case (Cons x xs)
  let ?h = "\<lambda>xs r. case find (\<lambda>x. rid x = rid r) xs of
                      None \<Rightarrow> r
                    | Some x \<Rightarrow> if G x then (F x r)\<lparr>updatedAt := clock e\<rparr> else r"
  let ?g = "\<lambda>r. if G x \<and> rid r = rid x then (F x r)\<lparr>updatedAt := clock e\<rparr> else r"
  have nf: "find (\<lambda>y. rid y = rid x) xs = None"
    using Cons.prems by (intro find_rid_None) simp
  have d: "distinct (map rid xs)" using Cons.prems by simp
  have step: "(if G x then updateRequest_repo e w (rid x) (F x) else w) =
              w\<lparr>requests := map ?g (requests w)\<rparr>"
    by (simp add: updateRequest_repo_def cong: map_cong)
  have comp: "?h xs (?g r) = ?h (x # xs) r" for r
    by (cases "rid r = rid x") (auto simp: F nf)
  have "fold (\<lambda>x w. if G x then updateRequest_repo e w (rid x) (F x) else w) (x # xs) w =
        (w\<lparr>requests := map ?g (requests w)\<rparr>)\<lparr>requests := map (?h xs) (map ?g (requests w))\<rparr>"
    by (simp only: fold_simps step Cons.IH[OF d]) simp
  also have "\<dots> = w\<lparr>requests := map (?h (x # xs)) (requests w)\<rparr>"
    by (simp only: map_map o_def comp) simp
  finally show ?case .
qed

lemma pass_as_map:
  assumes d: "distinct (map rid (requests w))" and F: "\<And>x r. rid (F x r) = rid r"
  shows "fold (\<lambda>x w. if G x then updateRequest_repo e w (rid x) (F x) else w)
              (filter P (requests w)) w =
         w\<lparr>requests := map (\<lambda>r. if P r \<and> G r then (F r r)\<lparr>updatedAt := clock e\<rparr> else r)
                            (requests w)\<rparr>"
proof -
  have "distinct (map rid (filter P (requests w)))" using d by (simp add: distinct_map_filter)
  from fold_updateRequest[OF this F, where G = G and e = e and w = w]
  show ?thesis
    by (simp add: find_rid_filter[OF d] cong: map_cong)
qed

lemma getRequestById_updateRequest_repo:
  assumes "\<And>r. rid (f r) = rid r"
  shows "getRequestById (updateRequest_repo e w i f) j =
         (if j = i then map_option (\<lambda>r. (f r)\<lparr>updatedAt := clock e\<rparr>) (getRequestById w i)
          else getRequestById w j)"
proof -
  have "find (\<lambda>r. rid r = j) (map (\<lambda>r. if rid r = i then (f r)\<lparr>updatedAt := clock e\<rparr> else r) rs) =
        (if j = i then map_option (\<lambda>r. (f r)\<lparr>updatedAt := clock e\<rparr>) (find (\<lambda>r. rid r = i) rs)
         else find (\<lambda>r. rid r = j) rs)" for rs
    by (induction rs) (auto simp: assms)
  then show ?thesis by (simp add: getRequestById_def updateRequest_repo_def)
qed

lemma updateRequest_repo_frame [simp]:
  "documents (updateRequest_repo e w i f) = documents w"
  "auditLogs (updateRequest_repo e w i f) = auditLogs w"
  by (simp_all add: updateRequest_repo_def)

lemma createAuditLog_frame [simp]:
  "requests (snd (createAuditLog e k w a act i ip m)) = requests w"
  "documents (snd (createAuditLog e k w a act i ip m)) = documents w"
  by (simp_all add: createAuditLog_def Let_def)

lemma getRequestById_createAuditLog [simp]:
  "getRequestById (snd (createAuditLog e k w a act i ip m)) j = getRequestById w j"
  by (simp add: getRequestById_def)

lemma createAuditLog_up:
  assumes "\<And>l. sinkAccepts e l"
  shows "\<exists>entry. createAuditLog e k w a act i ip m = (Returned entry, w\<lparr>auditLogs := auditLogs w @ [entry]\<rparr>)"
  by (simp add: createAuditLog_def Let_def assms)

lemma createAuditLog_down:
  assumes "\<And>l. \<not> sinkAccepts e l"
  shows "createAuditLog e k w a act i ip m = (Thrown SinkRejected, w)"
  by (simp add: createAuditLog_def Let_def assms)

lemma getRequestById_frame [simp]:
  "getRequestById (w\<lparr>auditLogs := ls\<rparr>) j = getRequestById w j"
  "getRequestById (w\<lparr>documents := ds\<rparr>) j = getRequestById w j"
  by (simp_all add: getRequestById_def)

lemma snd_thenReturn [simp]: "snd (thenReturn p v) = snd p"
  by (cases p, cases "fst p") (simp_all add: thenReturn_def)


lemma createAuditLog_sinkUp [simp]:
  "createAuditLog (sinkUp e) k w a act i ip m =
     (Returned \<lparr> log_id = autoId e k, log_actorId = a, log_action = act, log_requestId = i,
                 log_timestamp = clock e, log_ip = orNull ip, log_metadata = m \<rparr>,
      w\<lparr>auditLogs := auditLogs w @
          [\<lparr> log_id = autoId e k, log_actorId = a, log_action = act, log_requestId = i,
             log_timestamp = clock e, log_ip = orNull ip, log_metadata = m \<rparr>]\<rparr>)"
  by (simp add: createAuditLog_def sinkUp_def Let_def)

lemma createAuditLog_sinkDown [simp]:
  "createAuditLog (sinkDown e) k w a act i ip m = (Thrown SinkRejected, w)"
  by (simp add: createAuditLog_def sinkDown_def Let_def)

lemma sink_env [simp]:
  "clock (sinkUp e) = clock e" "clock (sinkDown e) = clock e"
  "autoId (sinkUp e) = autoId e" "autoId (sinkDown e) = autoId e"
  by (simp_all add: sinkUp_def sinkDown_def)

subsection \<open>The SLA expiry job\<close>

lemma processExpiry_as_map:
  assumes "distinct (map rid (requests w))"
  shows "processExpiry e w =
         w\<lparr>requests :=
             map (\<lambda>r. if status r \<noteq> COMPLETED \<and> status r \<noteq> EXPIRED
                          \<and> 518400000 \<le> \<bar>clock e - createdAt r\<bar>
                       then r\<lparr>status := EXPIRED, expiredAt := Some (clock e), updatedAt := clock e\<rparr>
                       else r)
                 (requests w)\<rparr>"
proof -
  have step: "expiryStep e = (\<lambda>x w. if status x \<noteq> EXPIRED \<and> 518400000 \<le> \<bar>clock e - createdAt x\<bar>
                                     then updateRequest_repo e w (rid x)
                                            ((\<lambda>x r. r\<lparr>status := EXPIRED, expiredAt := Some (clock e)\<rparr>) x)
                                     else w)"
    by (intro ext) (simp add: expiryStep_def hoursBetween_144)
  show ?thesis
    unfolding processExpiry_def getRequestsForExpiryCheck_def step
    by (subst pass_as_map[OF assms]) (auto cong: map_cong)
qed

lemma processExpiry_idem:
  assumes "distinct (map rid (requests w))"
  shows "processExpiry e (processExpiry e w) = processExpiry e w"
proof -
  let ?g = "\<lambda>r. if status r \<noteq> COMPLETED \<and> status r \<noteq> EXPIRED
                          \<and> 518400000 \<le> \<bar>clock e - createdAt r\<bar>
                       then r\<lparr>status := EXPIRED, expiredAt := Some (clock e), updatedAt := clock e\<rparr>
                       else r"
  have ids: "map (\<lambda>r. rid (?g r)) (requests w) = map rid (requests w)" by (simp cong: map_cong)
  have d: "distinct (map rid (requests (processExpiry e w)))"
    using assms by (simp add: processExpiry_as_map[OF assms] o_def ids)
  have gg: "?g (?g r) = ?g r" for r by simp
  show ?thesis
    by (simp only: processExpiry_as_map[OF d]) (simp add: processExpiry_as_map[OF assms] o_def cong: map_cong)
qed

lemma processExpiry_past_stores:
  assumes "distinct (map rid (requests w))"
    and "\<forall>r\<in>set (requests w). createdAt r \<le> clock e"
  shows "processExpiry e w =
           w\<lparr>requests :=
               map (\<lambda>r. if status r \<noteq> COMPLETED \<and> status r \<noteq> EXPIRED
                            \<and> 518400000 \<le> clock e - createdAt r
                         then r\<lparr>status := EXPIRED, expiredAt := Some (clock e),
                                 updatedAt := clock e\<rparr>
                         else r)
                   (requests w)\<rparr>"
proof -
  have "map (\<lambda>r. if status r \<noteq> COMPLETED \<and> status r \<noteq> EXPIRED
                          \<and> 518400000 \<le> \<bar>clock e - createdAt r\<bar>
                       then r\<lparr>status := EXPIRED, expiredAt := Some (clock e), updatedAt := clock e\<rparr>
                       else r) (requests w)
      = map (\<lambda>r. if status r \<noteq> COMPLETED \<and> status r \<noteq> EXPIRED
                            \<and> 518400000 \<le> clock e - createdAt r
                         then r\<lparr>status := EXPIRED, expiredAt := Some (clock e),
                                 updatedAt := clock e\<rparr>
                         else r) (requests w)"
  proof (rule map_cong[OF refl])
    fix r assume "r \<in> set (requests w)"
    with assms(2) have "\<bar>clock e - createdAt r\<bar> = clock e - createdAt r" by simp
    then show "(if status r \<noteq> COMPLETED \<and> status r \<noteq> EXPIRED
                          \<and> 518400000 \<le> \<bar>clock e - createdAt r\<bar>
                       then r\<lparr>status := EXPIRED, expiredAt := Some (clock e), updatedAt := clock e\<rparr>
                       else r)
       = (if status r \<noteq> COMPLETED \<and> status r \<noteq> EXPIRED
                            \<and> 518400000 \<le> clock e - createdAt r
                         then r\<lparr>status := EXPIRED, expiredAt := Some (clock e),
                                 updatedAt := clock e\<rparr>
                         else r)" by simp
  qed
  then show ?thesis by (simp only: processExpiry_as_map[OF assms(1)])
qed

text \<open>
  Claim C4. \<open>createdAt\<close> is written once, from the clock, when the request is created, so
  at a run of the expiry job no \<open>createdAt\<close> lies after the job's \<open>now\<close>. On such a store
  (with unique request ids) one run turns a request into an EXPIRED one, with \<open>expiredAt\<close>
  the job's \<open>now\<close>, exactly when its status is neither COMPLETED nor EXPIRED and
  \<open>now - createdAt\<close> is at least 144 hours (518400000 ms); every other request, COMPLETED
  ones of any age among them, the documents and the audit log are left as they are; and
  a second run at the same instant changes nothing.
\<close>

theorem processExpiry_expires_exactly_old_open_requests:
  assumes "distinct (map rid (requests w))"
    and "\<forall>r\<in>set (requests w). createdAt r \<le> clock e"
  shows "processExpiry e w =
           w\<lparr>requests :=
               map (\<lambda>r. if status r \<noteq> COMPLETED \<and> status r \<noteq> EXPIRED
                            \<and> 518400000 \<le> clock e - createdAt r
                         then r\<lparr>status := EXPIRED, expiredAt := Some (clock e),
                                 updatedAt := clock e\<rparr>
                         else r)
                   (requests w)\<rparr>
         \<and> processExpiry e (processExpiry e w) = processExpiry e w"
  using processExpiry_past_stores[OF assms] processExpiry_idem[OF assms(1)] by blast

text \<open>
  The boundary of C4 at a concrete store, \<open>now = 600000000\<close>: r1 was created 144 h minus
  one second before, r2 exactly 144 h before, r3 is COMPLETED and older than both.
\<close>

theorem processExpiry_expires_exactly_old_open_requests_witness:
  "distinct (map rid (requests expiryWorld))
   \<and> list_all (\<lambda>r. createdAt r \<le> clock (sampleEnv 600000000 True)) (requests expiryWorld)
   \<and> map createdAt (requests expiryWorld) = [600000000 - 518399000, 600000000 - 518400000, 0]
   \<and> map status (requests expiryWorld) = [OPEN, OPEN, COMPLETED]
   \<and> map status (requests (processExpiry (sampleEnv 600000000 True) expiryWorld))
       = [OPEN, EXPIRED, COMPLETED]
   \<and> map expiredAt (requests (processExpiry (sampleEnv 600000000 True) expiryWorld))
       = [None, Some 600000000, None]
   \<and> processExpiry (sampleEnv 600000000 True) (processExpiry (sampleEnv 600000000 True) expiryWorld)
       = processExpiry (sampleEnv 600000000 True) expiryWorld"
proof -
  let ?e = "sampleEnv 600000000 True"
  note defs = expiryWorld_def sampleRequest_def createRequestModel_def sampleEnv_def
  have d: "distinct (map rid (requests expiryWorld))" by (simp add: defs)
  have p: "\<forall>r\<in>set (requests expiryWorld). createdAt r \<le> clock ?e" by (simp add: defs)
  note run = processExpiry_expires_exactly_old_open_requests[OF d p]
  have c: "map createdAt (requests expiryWorld) = [600000000 - 518399000, 600000000 - 518400000, 0]"
    by (simp add: defs)
  have s0: "map status (requests expiryWorld) = [OPEN, OPEN, COMPLETED]" by (simp add: defs)
  have s: "map status (requests (processExpiry ?e expiryWorld)) = [OPEN, EXPIRED, COMPLETED]"
    by (subst run[THEN conjunct1]) (simp add: defs)
  have x: "map expiredAt (requests (processExpiry ?e expiryWorld)) = [None, Some 600000000, None]"
    by (subst run[THEN conjunct1]) (simp add: defs)
  have p': "list_all (\<lambda>r. createdAt r \<le> clock ?e) (requests expiryWorld)"
    using p by (simp only: list_all_iff)
  show ?thesis by (intro conjI d p' c s0 s x run[THEN conjunct2])
qed

subsection \<open>The reminder job\<close>

lemma reminderStep_alt:
  "reminderStep e x w =
     (if firstReminderDue e x \<or> secondReminderDue e x
      then updateRequest_repo e w (rid x)
             ((\<lambda>x r. r\<lparr>needsReminderLevel := (if needsReminderLevel x = 0 then 1 else 2)\<rparr>) x)
      else w)"
proof (cases "reminderEligible x")
  case False
  then show ?thesis
    by (simp add: reminderStep_def firstReminderDue_def secondReminderDue_def reminderEligible_def)
next
  case True
  then have el: "status x \<in> set [OPEN, IN_PROGRESS, SUBMITTED]" by (simp add: reminderEligible_def)
  show ?thesis
  proof (cases "needsReminderLevel x = 0")
    case True
    then show ?thesis using el \<open>reminderEligible x\<close>
      by (simp add: reminderStep_def firstReminderDue_def secondReminderDue_def hoursBetween_24
          REMINDER_LEVEL_NONE_def REMINDER_LEVEL_FIRST_def)
  next
    case False
    then show ?thesis using el \<open>reminderEligible x\<close>
      by (cases "lastReminderAt x")
         (simp_all add: reminderStep_def firstReminderDue_def secondReminderDue_def ackedLongAgo_def
           hoursBetween_48 REMINDER_LEVEL_NONE_def REMINDER_LEVEL_FIRST_def REMINDER_LEVEL_SECOND_def)
  qed
qed

lemma remindCase_alt:
  "(if (status r \<noteq> COMPLETED \<and> status r \<noteq> EXPIRED)
        \<and> (firstReminderDue e r \<or> secondReminderDue e r)
    then (r\<lparr>needsReminderLevel := (if needsReminderLevel r = 0 then 1 else 2)\<rparr>)
           \<lparr>updatedAt := clock e\<rparr>
    else r) = remindCase e r"
proof (cases "reminderEligible r")
  case False
  then show ?thesis by (simp add: remindCase_def firstReminderDue_def secondReminderDue_def)
next
  case True
  then have "status r \<noteq> COMPLETED \<and> status r \<noteq> EXPIRED"
    by (auto simp: reminderEligible_def)
  then show ?thesis by (simp add: remindCase_def firstReminderDue_def secondReminderDue_def)
qed

lemma processReminders_as_map:
  assumes "distinct (map rid (requests w))"
  shows "processReminders e w = w\<lparr>requests := map (remindCase e) (requests w)\<rparr>"
proof -
  have step: "reminderStep e =
     (\<lambda>x w. if firstReminderDue e x \<or> secondReminderDue e x
              then updateRequest_repo e w (rid x)
                     ((\<lambda>x r. r\<lparr>needsReminderLevel := (if needsReminderLevel x = 0 then 1 else 2)\<rparr>) x)
              else w)"
    by (intro ext) (rule reminderStep_alt)
  show ?thesis
    unfolding processReminders_def getActiveRequests_def step
    by (subst pass_as_map[OF assms], simp) (simp only: remindCase_alt)
qed

lemma rid_remindCase [simp]: "rid (remindCase e r) = rid r"
  by (simp add: remindCase_def)

lemma reminderEligible_remindCase [simp]: "reminderEligible (remindCase e r) = reminderEligible r"
  by (simp add: remindCase_def reminderEligible_def)

lemma ackedLongAgo_remindCase [simp]: "ackedLongAgo e (remindCase e r) = ackedLongAgo e r"
  by (simp add: remindCase_def ackedLongAgo_def)

lemma createdAt_remindCase [simp]: "createdAt (remindCase e r) = createdAt r"
  by (simp add: remindCase_def)

lemma level_remindCase:
  "needsReminderLevel (remindCase e r) =
     (if firstReminderDue e r then 1 else if secondReminderDue e r then 2 else needsReminderLevel r)"
  by (simp add: remindCase_def)

lemma remindCase_fixed:
  "\<not> firstReminderDue e r \<Longrightarrow> \<not> secondReminderDue e r \<Longrightarrow> remindCase e r = r"
  by (simp add: remindCase_def)

lemma remindCase_twice:
  assumes "\<not> (firstReminderDue e r \<and> ackedLongAgo e r)"
  shows "remindCase e (remindCase e r) = remindCase e r"
proof (rule remindCase_fixed)
  show "\<not> firstReminderDue e (remindCase e r)"
    by (simp add: firstReminderDue_def level_remindCase)
  show "\<not> secondReminderDue e (remindCase e r)"
    using assms by (auto simp add: secondReminderDue_def level_remindCase firstReminderDue_def)
qed

lemma remindCase_thrice: "remindCase e (remindCase e (remindCase e r)) = remindCase e (remindCase e r)"
proof (cases "firstReminderDue e r \<and> ackedLongAgo e r")
  case False
  then have "remindCase e (remindCase e r) = remindCase e r" by (rule remindCase_twice)
  then show ?thesis by simp
next
  case True
  define r1 where "r1 = remindCase e r"
  have l1: "needsReminderLevel r1 = 1" using True by (simp add: r1_def level_remindCase)
  have el: "reminderEligible r1" using True by (simp add: r1_def firstReminderDue_def)
  have ack: "ackedLongAgo e r1" using True by (simp add: r1_def)
  have nf: "\<not> firstReminderDue e r1" using l1 by (simp add: firstReminderDue_def)
  have sd: "secondReminderDue e r1" using l1 el ack by (simp add: secondReminderDue_def)
  have l2: "needsReminderLevel (remindCase e r1) = 2" using nf sd by (simp add: level_remindCase)
  have "remindCase e (remindCase e r1) = remindCase e r1"
    by (rule remindCase_fixed) (simp_all add: firstReminderDue_def secondReminderDue_def l2)
  then show ?thesis by (simp only: r1_def)
qed

lemma processReminders_ids:
  assumes "distinct (map rid (requests w))"
  shows "distinct (map rid (requests (processReminders e w)))"
  using assms by (simp add: processReminders_as_map[OF assms] o_def)

lemma processReminders_twice_as_map:
  assumes "distinct (map rid (requests w))"
  shows "processReminders e (processReminders e w) =
         w\<lparr>requests := map (\<lambda>r. remindCase e (remindCase e r)) (requests w)\<rparr>"
  by (simp only: processReminders_as_map[OF processReminders_ids[OF assms]])
     (simp add: processReminders_as_map[OF assms] o_def)

lemma processReminders_stable_after_two:
  assumes "distinct (map rid (requests w))"
  shows "processReminders e (processReminders e (processReminders e w)) =
         processReminders e (processReminders e w)"
proof -
  note d1 = processReminders_ids[OF assms, of e]
  have "processReminders e (processReminders e (processReminders e w)) =
        (processReminders e w)\<lparr>requests := map (\<lambda>r. remindCase e (remindCase e r))
                                              (requests (processReminders e w))\<rparr>"
    by (rule processReminders_twice_as_map[OF d1])
  also have "\<dots> = w\<lparr>requests := map (\<lambda>r. remindCase e (remindCase e r)) (requests w)\<rparr>"
    by (simp add: processReminders_as_map[OF assms] o_def remindCase_thrice)
  finally show ?thesis by (simp only: processReminders_twice_as_map[OF assms])
qed

lemma processReminders_idem:
  assumes "distinct (map rid (requests w))"
    and "\<forall>r\<in>set (requests w). \<not> (firstReminderDue e r \<and> ackedLongAgo e r)"
  shows "processReminders e (processReminders e w) = processReminders e w"
proof -
  have "map (\<lambda>r. remindCase e (remindCase e r)) (requests w) = map (remindCase e) (requests w)"
    using assms(2) by (intro map_cong refl remindCase_twice) blast
  then have "w\<lparr>requests := map (\<lambda>r. remindCase e (remindCase e r)) (requests w)\<rparr> =
             w\<lparr>requests := map (remindCase e) (requests w)\<rparr>" by simp
  then show ?thesis
    using processReminders_twice_as_map[OF assms(1), of e] processReminders_as_map[OF assms(1), of e]
    by simp
qed

lemma remindCase_explicit:
  "remindCase e =
     (\<lambda>r. if status r \<in> {OPEN, IN_PROGRESS, SUBMITTED} \<and> needsReminderLevel r = 0
              \<and> 86400000 \<le> \<bar>clock e - createdAt r\<bar>
           then r\<lparr>needsReminderLevel := 1, updatedAt := clock e\<rparr>
           else if status r \<in> {OPEN, IN_PROGRESS, SUBMITTED} \<and> needsReminderLevel r = 1
              \<and> (\<exists>t. lastReminderAt r = Some t \<and> 172800000 \<le> \<bar>clock e - t\<bar>)
           then r\<lparr>needsReminderLevel := 2, updatedAt := clock e\<rparr>
           else r)"
proof
  fix r
  have a: "ackedLongAgo e r \<longleftrightarrow> (\<exists>t. lastReminderAt r = Some t \<and> 172800000 \<le> \<bar>clock e - t\<bar>)"
    by (cases "lastReminderAt r") (simp_all add: ackedLongAgo_def)
  have el: "reminderEligible r \<longleftrightarrow> status r \<in> {OPEN, IN_PROGRESS, SUBMITTED}"
    by (simp add: reminderEligible_def)
  show "remindCase e r =
     (if status r \<in> {OPEN, IN_PROGRESS, SUBMITTED} \<and> needsReminderLevel r = 0
              \<and> 86400000 \<le> \<bar>clock e - createdAt r\<bar>
           then r\<lparr>needsReminderLevel := 1, updatedAt := clock e\<rparr>
           else if status r \<in> {OPEN, IN_PROGRESS, SUBMITTED} \<and> needsReminderLevel r = 1
              \<and> (\<exists>t. lastReminderAt r = Some t \<and> 172800000 \<le> \<bar>clock e - t\<bar>)
           then r\<lparr>needsReminderLevel := 2, updatedAt := clock e\<rparr>
           else r)"
    unfolding remindCase_def firstReminderDue_def secondReminderDue_def a el ..
qed

lemma remindCase_past:
  assumes "createdAt r \<le> clock e" and "\<forall>t. lastReminderAt r = Some t \<longrightarrow> t \<le> clock e"
  shows "remindCase e r =
     (if status r \<in> {OPEN, IN_PROGRESS, SUBMITTED} \<and> needsReminderLevel r = 0
              \<and> 86400000 \<le> clock e - createdAt r
           then r\<lparr>needsReminderLevel := 1, updatedAt := clock e\<rparr>
           else if status r \<in> {OPEN, IN_PROGRESS, SUBMITTED} \<and> needsReminderLevel r = 1
              \<and> (\<exists>t. lastReminderAt r = Some t \<and> 172800000 \<le> clock e - t)
           then r\<lparr>needsReminderLevel := 2, updatedAt := clock e\<rparr>
           else r)"
proof -
  have c: "\<bar>clock e - createdAt r\<bar> = clock e - createdAt r" using assms(1) by simp
  have a: "(\<exists>t. lastReminderAt r = Some t \<and> 172800000 \<le> \<bar>clock e - t\<bar>)
           \<longleftrightarrow> (\<exists>t. lastReminderAt r = Some t \<and> 172800000 \<le> clock e - t)"
    using assms(2) by (cases "lastReminderAt r") simp_all
  show ?thesis by (simp only: remindCase_explicit c a)
qed

lemma staleAck_past:
  assumes "createdAt r \<le> clock e" and "\<forall>t. lastReminderAt r = Some t \<longrightarrow> t \<le> clock e"
  shows "firstReminderDue e r \<and> ackedLongAgo e r \<longleftrightarrow>
         status r \<in> {OPEN, IN_PROGRESS, SUBMITTED} \<and> needsReminderLevel r = 0
           \<and> 86400000 \<le> clock e - createdAt r
           \<and> (\<exists>t. lastReminderAt r = Some t \<and> 172800000 \<le> clock e - t)"
proof -
  have c: "\<bar>clock e - createdAt r\<bar> = clock e - createdAt r" using assms(1) by simp
  show ?thesis
    using assms(2)
    by (cases "lastReminderAt r")
       (auto simp: firstReminderDue_def ackedLongAgo_def reminderEligible_def c)
qed

text \<open>
  Claim C5. \<open>createdAt\<close> and \<open>lastReminderAt\<close> are written from the clock, at creation
  and at an acknowledgement, so at a run of the reminder job neither lies after the job's
  \<open>now\<close>. On such a store (with unique request ids) one run raises the reminder level of a
  request with status OPEN, IN_PROGRESS or SUBMITTED from 0 to 1 exactly when
  \<open>now - createdAt\<close> is at least 24 hours (86400000 ms), from 1 to 2 exactly when
  \<open>lastReminderAt\<close> is set and \<open>now - lastReminderAt\<close> is at least 48 hours
  (172800000 ms), and leaves every other request, the documents and the audit log as they
  are. A second run at the same instant changes nothing provided no request at level 0 is
  due for the first reminder while it carries an acknowledgement that is 48 hours old.
\<close>

theorem processReminders_escalates_by_thresholds:
  assumes "distinct (map rid (requests w))"
    and "\<forall>r\<in>set (requests w).
           createdAt r \<le> clock e \<and> (\<forall>t. lastReminderAt r = Some t \<longrightarrow> t \<le> clock e)"
  shows "processReminders e w =
           w\<lparr>requests :=
               map (\<lambda>r. if status r \<in> {OPEN, IN_PROGRESS, SUBMITTED} \<and> needsReminderLevel r = 0
                            \<and> 86400000 \<le> clock e - createdAt r
                         then r\<lparr>needsReminderLevel := 1, updatedAt := clock e\<rparr>
                         else if status r \<in> {OPEN, IN_PROGRESS, SUBMITTED}
                            \<and> needsReminderLevel r = 1
                            \<and> (\<exists>t. lastReminderAt r = Some t \<and> 172800000 \<le> clock e - t)
                         then r\<lparr>needsReminderLevel := 2, updatedAt := clock e\<rparr>
                         else r)
                   (requests w)\<rparr>
         \<and> ((\<forall>r\<in>set (requests w).
                \<not> (status r \<in> {OPEN, IN_PROGRESS, SUBMITTED} \<and> needsReminderLevel r = 0
                   \<and> 86400000 \<le> clock e - createdAt r
                   \<and> (\<exists>t. lastReminderAt r = Some t \<and> 172800000 \<le> clock e - t)))
              \<longrightarrow> processReminders e (processReminders e w) = processReminders e w)"
proof (rule conjI; (rule impI)?)
  have "map (remindCase e) (requests w) =
        map (\<lambda>r. if status r \<in> {OPEN, IN_PROGRESS, SUBMITTED} \<and> needsReminderLevel r = 0
                            \<and> 86400000 \<le> clock e - createdAt r
                         then r\<lparr>needsReminderLevel := 1, updatedAt := clock e\<rparr>
                         else if status r \<in> {OPEN, IN_PROGRESS, SUBMITTED}
                            \<and> needsReminderLevel r = 1
                            \<and> (\<exists>t. lastReminderAt r = Some t \<and> 172800000 \<le> clock e - t)
                         then r\<lparr>needsReminderLevel := 2, updatedAt := clock e\<rparr>
                         else r)
                   (requests w)"
  proof (rule map_cong[OF refl])
    fix r assume "r \<in> set (requests w)"
    with assms(2) have "createdAt r \<le> clock e"
      and "\<forall>t. lastReminderAt r = Some t \<longrightarrow> t \<le> clock e" by blast+
    then show "remindCase e r =
       (if status r \<in> {OPEN, IN_PROGRESS, SUBMITTED} \<and> needsReminderLevel r = 0
                            \<and> 86400000 \<le> clock e - createdAt r
                         then r\<lparr>needsReminderLevel := 1, updatedAt := clock e\<rparr>
                         else if status r \<in> {OPEN, IN_PROGRESS, SUBMITTED}
                            \<and> needsReminderLevel r = 1
                            \<and> (\<exists>t. lastReminderAt r = Some t \<and> 172800000 \<le> clock e - t)
                         then r\<lparr>needsReminderLevel := 2, updatedAt := clock e\<rparr>
                         else r)"
      by (rule remindCase_past)
  qed
  then show "processReminders e w =
           w\<lparr>requests :=
               map (\<lambda>r. if status r \<in> {OPEN, IN_PROGRESS, SUBMITTED} \<and> needsReminderLevel r = 0
                            \<and> 86400000 \<le> clock e - createdAt r
                         then r\<lparr>needsReminderLevel := 1, updatedAt := clock e\<rparr>
                         else if status r \<in> {OPEN, IN_PROGRESS, SUBMITTED}
                            \<and> needsReminderLevel r = 1
                            \<and> (\<exists>t. lastReminderAt r = Some t \<and> 172800000 \<le> clock e - t)
                         then r\<lparr>needsReminderLevel := 2, updatedAt := clock e\<rparr>
                         else r)
                   (requests w)\<rparr>"
    by (simp only: processReminders_as_map[OF assms(1)])
next
  assume h: "\<forall>r\<in>set (requests w).
                \<not> (status r \<in> {OPEN, IN_PROGRESS, SUBMITTED} \<and> needsReminderLevel r = 0
                   \<and> 86400000 \<le> clock e - createdAt r
                   \<and> (\<exists>t. lastReminderAt r = Some t \<and> 172800000 \<le> clock e - t))"
  have "\<forall>r\<in>set (requests w). \<not> (firstReminderDue e r \<and> ackedLongAgo e r)"
  proof
    fix r assume r: "r \<in> set (requests w)"
    with assms(2) have "createdAt r \<le> clock e"
      and "\<forall>t. lastReminderAt r = Some t \<longrightarrow> t \<le> clock e" by blast+
    from staleAck_past[OF this] h r show "\<not> (firstReminderDue e r \<and> ackedLongAgo e r)"
      by blast
  qed
  then show "processReminders e (processReminders e w) = processReminders e w"
    by (rule processReminders_idem[OF assms(1)])
qed

text \<open>
  The boundaries of C5 at a concrete store, \<open>now = 172800000\<close>: r1 was created 23 h 59 min
  before and r2 exactly 24 h before, both at level 0; r3, r4 and r5 are at level 1 and were
  created 48 h before; r3 was acknowledged exactly 48 h before, r4 one second later, r5
  never.
\<close>

theorem processReminders_escalates_by_thresholds_witness:
  "distinct (map rid (requests reminderWorld))
   \<and> map createdAt (requests reminderWorld)
       = [172800000 - 86340000, 172800000 - 86400000, 0, 0, 0]
   \<and> map lastReminderAt (requests reminderWorld) = [None, None, Some 0, Some 1000, None]
   \<and> map needsReminderLevel (requests reminderWorld) = [0, 0, 1, 1, 1]
   \<and> map needsReminderLevel (requests (processReminders (sampleEnv 172800000 True) reminderWorld))
       = [0, 1, 2, 1, 1]
   \<and> processReminders (sampleEnv 172800000 True)
        (processReminders (sampleEnv 172800000 True) reminderWorld)
       = processReminders (sampleEnv 172800000 True) reminderWorld"
proof -
  let ?e = "sampleEnv 172800000 True"
  note defs = reminderWorld_def ackedRequest_def sampleRequest_def createRequestModel_def
    sampleEnv_def REMINDER_LEVEL_NONE_def
  have d: "distinct (map rid (requests reminderWorld))" by (simp add: defs)
  have p: "\<forall>r\<in>set (requests reminderWorld).
             createdAt r \<le> clock ?e \<and> (\<forall>t. lastReminderAt r = Some t \<longrightarrow> t \<le> clock ?e)"
    by (simp add: defs)
  note run = processReminders_escalates_by_thresholds[OF d p]
  have c: "map createdAt (requests reminderWorld)
            = [172800000 - 86340000, 172800000 - 86400000, 0, 0, 0]" by (simp add: defs)
  have a: "map lastReminderAt (requests reminderWorld) = [None, None, Some 0, Some 1000, None]"
    by (simp add: defs)
  have l0: "map needsReminderLevel (requests reminderWorld) = [0, 0, 1, 1, 1]" by (simp add: defs)
  have l1: "map needsReminderLevel (requests (processReminders ?e reminderWorld)) = [0, 1, 2, 1, 1]"
    by (subst run[THEN conjunct1]) (simp add: defs)
  have h: "\<forall>r\<in>set (requests reminderWorld).
                \<not> (status r \<in> {OPEN, IN_PROGRESS, SUBMITTED} \<and> needsReminderLevel r = 0
                   \<and> 86400000 \<le> clock ?e - createdAt r
                   \<and> (\<exists>t. lastReminderAt r = Some t \<and> 172800000 \<le> clock ?e - t))"
    by (simp add: defs)
  have twice: "processReminders ?e (processReminders ?e reminderWorld)
                = processReminders ?e reminderWorld"
    using run[THEN conjunct2] h by (rule mp)
  show ?thesis by (intro conjI d c a l0 l1 twice)
qed

text \<open>
  The last sentence of C5 as stated fails. In \<open>staleAckWorld\<close> the one request is OPEN
  at level 0, was created at 0 and acknowledged at 0; at \<open>now = 172800000\<close> (48 h later)
  one run raises it to level 1 and a second run at the same instant raises it to level 2.
\<close>

theorem processReminders_second_run_counterexample:
  "map status (requests staleAckWorld) = [OPEN]
   \<and> map createdAt (requests staleAckWorld) = [0]
   \<and> map lastReminderAt (requests staleAckWorld) = [Some 0]
   \<and> map needsReminderLevel (requests staleAckWorld) = [0]
   \<and> map needsReminderLevel (requests (processReminders (sampleEnv 172800000 True) staleAckWorld))
       = [1]
   \<and> map needsReminderLevel
        (requests (processReminders (sampleEnv 172800000 True)
                    (processReminders (sampleEnv 172800000 True) staleAckWorld)))
       = [2]
   \<and> processReminders (sampleEnv 172800000 True)
        (processReminders (sampleEnv 172800000 True) staleAckWorld)
       \<noteq> processReminders (sampleEnv 172800000 True) staleAckWorld"
proof -
  let ?e = "sampleEnv 172800000 True"
  note defs = processReminders_def getActiveRequests_def reminderStep_def hoursBetween_24
      hoursBetween_48 updateRequest_repo_def staleAckWorld_def ackedRequest_def
      sampleRequest_def createRequestModel_def sampleEnv_def REMINDER_LEVEL_NONE_def
      REMINDER_LEVEL_FIRST_def REMINDER_LEVEL_SECOND_def
  have s: "map status (requests staleAckWorld) = [OPEN]" by (simp add: defs)
  have c: "map createdAt (requests staleAckWorld) = [0]" by (simp add: defs)
  have a: "map lastReminderAt (requests staleAckWorld) = [Some 0]" by (simp add: defs)
  have l0: "map needsReminderLevel (requests staleAckWorld) = [0]" by (simp add: defs)
  have l1: "map needsReminderLevel (requests (processReminders ?e staleAckWorld)) = [1]"
    by (simp add: defs)
  have l2: "map needsReminderLevel
        (requests (processReminders ?e (processReminders ?e staleAckWorld))) = [2]"
    by (simp add: defs)
  have ne: "processReminders ?e (processReminders ?e staleAckWorld)
             \<noteq> processReminders ?e staleAckWorld"
  proof
    assume "processReminders ?e (processReminders ?e staleAckWorld)
             = processReminders ?e staleAckWorld"
    then have "map needsReminderLevel
        (requests (processReminders ?e (processReminders ?e staleAckWorld)))
       = map needsReminderLevel (requests (processReminders ?e staleAckWorld))" by simp
    then show False by (simp only: l1 l2) simp
  qed
  show ?thesis by (intro conjI s c a l0 l1 l2 ne)
qed

subsection \<open>Review\<close>

lemma rid_reviewData [simp]: "rid (reviewData e decision comment actor slots r) = rid r"
  by (simp add: reviewData_def Let_def)

lemma reviewRequest_guard_status:
  assumes "getRequestById w i = Some r" "status r \<noteq> SUBMITTED"
  shows "reviewRequest e w i decision comment actor ip slots =
         (Thrown (Error ''Can only review submitted requests''), w)"
  using assms by (simp add: reviewRequest_def)

lemma reviewRequest_guard_comment:
  assumes "getRequestById w i = Some r" "status r = SUBMITTED" "\<not> truthy comment"
  shows "reviewRequest e w i ''REJECT'' comment actor ip slots =
         (Thrown (Error ''Rejection comment is required''), w)"
  using assms by (simp add: reviewRequest_def)

lemma reviewRequest_guard_slots:
  assumes "getRequestById w i = Some r" "status r = SUBMITTED" "truthy comment"
  shows "reviewRequest e w i ''REJECT'' comment actor ip [] =
         (Thrown (Error ''At least one document must be selected for the customer to re-upload''), w)"
  using assms by (simp add: reviewRequest_def)

lemma reviewRequest_commits:
  assumes "getRequestById w i = Some r" "status r = SUBMITTED"
    and "decision = ''REJECT'' \<Longrightarrow> truthy comment \<and> slots \<noteq> []"
  shows "getRequestById (snd (reviewRequest e w i decision comment actor ip slots)) i =
           Some ((reviewData e decision comment actor slots r)\<lparr>updatedAt := clock e\<rparr>)"
    and "fst (reviewRequest e w i decision comment actor ip slots) =
           Returned (Some ((reviewData e decision comment actor slots r)\<lparr>updatedAt := clock e\<rparr>))
         \<or> fst (reviewRequest e w i decision comment actor ip slots) = Thrown SinkRejected"
    and "(\<And>l. sinkAccepts e l) \<Longrightarrow>
         fst (reviewRequest e w i decision comment actor ip slots) =
           Returned (Some ((reviewData e decision comment actor slots r)\<lparr>updatedAt := clock e\<rparr>))"
  using assms
  by (auto simp add: reviewRequest_def Let_def thenReturn_def createAuditLog_def
      getRequestById_updateRequest_repo split: prod.splits outcome.splits)

lemma reviewData_approve:
  "(reviewData e ''APPROVE'' comment actor slots r)\<lparr>updatedAt := clock e\<rparr> =
     r\<lparr>status := COMPLETED, reviewStatus := APPROVED, rejectedDocumentTypes := Some [],
       reviewedBy := Some actor, reviewedAt := Some (clock e), reviewComment := orNull comment,
       updatedAt := clock e\<rparr>"
  by (simp add: reviewData_def Let_def)

lemma reviewData_reject:
  "truthy comment \<Longrightarrow>
   (reviewData e ''REJECT'' comment actor slots r)\<lparr>updatedAt := clock e\<rparr> =
     r\<lparr>status := IN_PROGRESS, reviewStatus := REJECTED, rejectedDocumentTypes := Some slots,
       reviewedBy := Some actor, reviewedAt := Some (clock e), reviewComment := comment,
       updatedAt := clock e\<rparr>"
  by (simp add: reviewData_def Let_def orNull_def)

text \<open>
  Claim C7. For an existing request, \<^verbatim>\<open>reviewRequest\<close> returns only when the status is
  SUBMITTED. On a SUBMITTED request an APPROVE decision stores status COMPLETED, review
  status APPROVED, no rejected document types, the reviewer and the review time; a REJECT
  decision with a non-empty comment and a non-empty selection stores status IN_PROGRESS,
  review status REJECTED, the selection, the reviewer and the review time. A request that
  is not SUBMITTED, a REJECT without a comment and a REJECT without a selection each throw
  an error and leave the store as it was. When the audit sink accepts the record, the call
  returns the stored request.
\<close>

theorem reviewRequest_transitions:
  assumes "getRequestById w i = Some r"
  shows "((\<exists>v. fst (reviewRequest e w i decision comment actor ip slots) = Returned v)
            \<longrightarrow> status r = SUBMITTED)
       \<and> (status r = SUBMITTED \<longrightarrow>
            getRequestById (snd (reviewRequest e w i ''APPROVE'' comment actor ip slots)) i =
              Some (r\<lparr>status := COMPLETED, reviewStatus := APPROVED,
                      rejectedDocumentTypes := Some [], reviewedBy := Some actor,
                      reviewedAt := Some (clock e), reviewComment := orNull comment,
                      updatedAt := clock e\<rparr>))
       \<and> (status r = SUBMITTED \<and> truthy comment \<and> slots \<noteq> [] \<longrightarrow>
            getRequestById (snd (reviewRequest e w i ''REJECT'' comment actor ip slots)) i =
              Some (r\<lparr>status := IN_PROGRESS, reviewStatus := REJECTED,
                      rejectedDocumentTypes := Some slots, reviewedBy := Some actor,
                      reviewedAt := Some (clock e), reviewComment := comment,
                      updatedAt := clock e\<rparr>))
       \<and> (status r \<noteq> SUBMITTED \<or> decision = ''REJECT'' \<and> (\<not> truthy comment \<or> slots = []) \<longrightarrow>
            (\<exists>msg. reviewRequest e w i decision comment actor ip slots = (Thrown (Error msg), w)))
       \<and> (status r = SUBMITTED
            \<and> (decision = ''APPROVE'' \<or> decision = ''REJECT'' \<and> truthy comment \<and> slots \<noteq> [])
            \<and> (\<forall>l. sinkAccepts e l) \<longrightarrow>
            fst (reviewRequest e w i decision comment actor ip slots) =
              Returned (getRequestById (snd (reviewRequest e w i decision comment actor ip slots)) i))"
proof (intro conjI impI)
  assume "\<exists>v. fst (reviewRequest e w i decision comment actor ip slots) = Returned v"
  then show "status r = SUBMITTED"
    using reviewRequest_guard_status[OF assms, of e decision comment actor ip slots]
    by (cases "status r = SUBMITTED") auto
next
  assume "status r = SUBMITTED"
  then show "getRequestById (snd (reviewRequest e w i ''APPROVE'' comment actor ip slots)) i =
              Some (r\<lparr>status := COMPLETED, reviewStatus := APPROVED,
                      rejectedDocumentTypes := Some [], reviewedBy := Some actor,
                      reviewedAt := Some (clock e), reviewComment := orNull comment,
                      updatedAt := clock e\<rparr>)"
    using reviewRequest_commits(1)[OF assms, of "''APPROVE''" comment slots e actor ip]
    by (simp only: reviewData_approve) simp
next
  assume h: "status r = SUBMITTED \<and> truthy comment \<and> slots \<noteq> []"
  then show "getRequestById (snd (reviewRequest e w i ''REJECT'' comment actor ip slots)) i =
              Some (r\<lparr>status := IN_PROGRESS, reviewStatus := REJECTED,
                      rejectedDocumentTypes := Some slots, reviewedBy := Some actor,
                      reviewedAt := Some (clock e), reviewComment := comment,
                      updatedAt := clock e\<rparr>)"
    using reviewRequest_commits(1)[OF assms, of "''REJECT''" comment slots e actor ip]
    by (simp add: reviewData_reject)
next
  assume h: "status r \<noteq> SUBMITTED \<or> decision = ''REJECT'' \<and> (\<not> truthy comment \<or> slots = [])"
  show "\<exists>msg. reviewRequest e w i decision comment actor ip slots = (Thrown (Error msg), w)"
  proof (cases "status r = SUBMITTED")
    case False
    then show ?thesis using reviewRequest_guard_status[OF assms] by blast
  next
    case True
    with h have d: "decision = ''REJECT''" and c: "\<not> truthy comment \<or> slots = []" by auto
    show ?thesis
    proof (cases "truthy comment")
      case False
      then show ?thesis using reviewRequest_guard_comment[OF assms True] d by blast
    next
      case tc: True
      with c have "slots = []" by simp
      then show ?thesis using reviewRequest_guard_slots[OF assms True tc] d by blast
    qed
  qed
next
  assume h: "status r = SUBMITTED
            \<and> (decision = ''APPROVE'' \<or> decision = ''REJECT'' \<and> truthy comment \<and> slots \<noteq> [])
            \<and> (\<forall>l. sinkAccepts e l)"
  then have s: "status r = SUBMITTED" and g: "decision = ''REJECT'' \<Longrightarrow> truthy comment \<and> slots \<noteq> []"
    and up: "\<And>l. sinkAccepts e l" by auto
  show "fst (reviewRequest e w i decision comment actor ip slots) =
          Returned (getRequestById (snd (reviewRequest e w i decision comment actor ip slots)) i)"
    using reviewRequest_commits(1)[OF assms s g] reviewRequest_commits(3)[OF assms s g up]
    by simp
qed

theorem reviewRequest_transitions_witness:
  "getRequestById submittedWorld ''r1'' = Some (hd (requests submittedWorld))
   \<and> status (hd (requests submittedWorld)) = SUBMITTED
   \<and> map_option (\<lambda>r. (status r, reviewStatus r, rejectedDocumentTypes r, reviewedBy r, reviewedAt r))
       (getRequestById
          (snd (reviewRequest (sampleEnv 9000 True) submittedWorld ''r1'' ''APPROVE'' None
                  ''agent-1'' None []))
          ''r1'')
       = Some (COMPLETED, APPROVED, Some [], Some ''agent-1'', Some 9000)
   \<and> map_option (\<lambda>r. (status r, reviewStatus r, rejectedDocumentTypes r, reviewComment r))
       (getRequestById
          (snd (reviewRequest (sampleEnv 9000 True) submittedWorld ''r1'' ''REJECT''
                  (Some ''fix ID'') ''agent-1'' None [''ID'']))
          ''r1'')
       = Some (IN_PROGRESS, REJECTED, Some [''ID''], Some ''fix ID'')
   \<and> reviewRequest (sampleEnv 9000 True) submittedWorld ''r1'' ''REJECT'' None ''agent-1'' None [''ID'']
       = (Thrown (Error ''Rejection comment is required''), submittedWorld)"
proof -
  let ?e = "sampleEnv 9000 True"
  let ?r = "hd (requests submittedWorld)"
  note defs = submittedWorld_def sampleRequest_def createRequestModel_def sampleEnv_def
  have g: "getRequestById submittedWorld ''r1'' = Some ?r" by (simp add: getRequestById_def defs)
  have s: "status ?r = SUBMITTED" by (simp add: defs)
  note t = reviewRequest_transitions[OF g, of ?e]
  have a: "map_option (\<lambda>r. (status r, reviewStatus r, rejectedDocumentTypes r, reviewedBy r, reviewedAt r))
       (getRequestById (snd (reviewRequest ?e submittedWorld ''r1'' ''APPROVE'' None ''agent-1'' None []))
          ''r1'')
       = Some (COMPLETED, APPROVED, Some [], Some ''agent-1'', Some 9000)"
    using t[of _ _ _ _ _ , THEN conjunct2, THEN conjunct1, rule_format, OF s, of None "''agent-1''" None "[]"]
    by (simp add: sampleEnv_def)
  have tr: "truthy (Some ''fix ID'')" by (simp add: truthy_def)
  have b: "map_option (\<lambda>r. (status r, reviewStatus r, rejectedDocumentTypes r, reviewComment r))
       (getRequestById
          (snd (reviewRequest ?e submittedWorld ''r1'' ''REJECT'' (Some ''fix ID'') ''agent-1'' None [''ID'']))
          ''r1'')
       = Some (IN_PROGRESS, REJECTED, Some [''ID''], Some ''fix ID'')"
    using t[THEN conjunct2, THEN conjunct2, THEN conjunct1, rule_format,
            of "Some ''fix ID''" "[''ID'']" "''agent-1''" None] s tr
    by simp
  have c: "reviewRequest ?e submittedWorld ''r1'' ''REJECT'' None ''agent-1'' None [''ID'']
       = (Thrown (Error ''Rejection comment is required''), submittedWorld)"
    using g s by (simp add: reviewRequest_def truthy_def)
  show ?thesis by (intro conjI g s a b c)
qed

subsection \<open>Reminder confirmation\<close>

lemma markReminderConfirmed_expired:
  assumes "getRequestById w i = Some r" "status r = EXPIRED"
  shows "markReminderConfirmed e w i actor ip =
         (Thrown (Error ''Cannot confirm reminder for expired request''), w)"
  using assms by (simp add: markReminderConfirmed_def)

lemma markReminderConfirmed_commits:
  assumes "getRequestById w i = Some r" "status r \<noteq> EXPIRED"
  shows "getRequestById (snd (markReminderConfirmed e w i actor ip)) i =
           Some (r\<lparr>needsReminderLevel := 0, lastReminderAt := Some (clock e), updatedAt := clock e\<rparr>)"
    and "\<forall>msg. fst (markReminderConfirmed e w i actor ip) \<noteq> Thrown (Error msg)"
    and "(\<And>l. sinkAccepts e l) \<Longrightarrow>
         fst (markReminderConfirmed e w i actor ip) =
           Returned (Some (r\<lparr>needsReminderLevel := 0, lastReminderAt := Some (clock e),
                             updatedAt := clock e\<rparr>))"
  using assms
  by (auto simp add: markReminderConfirmed_def Let_def thenReturn_def createAuditLog_def
      getRequestById_updateRequest_repo split: prod.splits outcome.splits)

text \<open>
  Claim C8, as the code has it. For an existing request, \<^verbatim>\<open>markReminderConfirmed\<close>
  throws and changes nothing when the status is EXPIRED. On every other status, COMPLETED
  included, it stores reminder level 0 and \<open>lastReminderAt = now\<close>, throws no guard error,
  and returns the stored request when the audit sink accepts the record.
\<close>

theorem markReminderConfirmed_guard_is_expired_only:
  assumes "getRequestById w i = Some r"
  shows "(status r = EXPIRED \<longrightarrow>
            markReminderConfirmed e w i actor ip =
              (Thrown (Error ''Cannot confirm reminder for expired request''), w))
       \<and> (status r \<noteq> EXPIRED \<longrightarrow>
            getRequestById (snd (markReminderConfirmed e w i actor ip)) i =
              Some (r\<lparr>needsReminderLevel := 0, lastReminderAt := Some (clock e),
                      updatedAt := clock e\<rparr>)
            \<and> (\<forall>msg. fst (markReminderConfirmed e w i actor ip) \<noteq> Thrown (Error msg)))
       \<and> (status r \<noteq> EXPIRED \<and> (\<forall>l. sinkAccepts e l) \<longrightarrow>
            fst (markReminderConfirmed e w i actor ip) =
              Returned (Some (r\<lparr>needsReminderLevel := 0, lastReminderAt := Some (clock e),
                                updatedAt := clock e\<rparr>)))"
  using markReminderConfirmed_expired[OF assms, of e actor ip]
    markReminderConfirmed_commits[OF assms, of e actor ip]
  by blast

theorem markReminderConfirmed_guard_is_expired_only_witness:
  "getRequestById openWorld ''r1'' = Some (hd (requests openWorld))
   \<and> status (hd (requests openWorld)) = OPEN
   \<and> map_option (\<lambda>r. (needsReminderLevel r, lastReminderAt r))
       (getRequestById (snd (markReminderConfirmed (sampleEnv 7000 True) openWorld ''r1'' ''agent-1'' None))
          ''r1'')
       = Some (0, Some 7000)
   \<and> getRequestById expiredWorld ''r1'' = Some (hd (requests expiredWorld))
   \<and> markReminderConfirmed (sampleEnv 7000 True) expiredWorld ''r1'' ''agent-1'' None
       = (Thrown (Error ''Cannot confirm reminder for expired request''), expiredWorld)"
proof -
  let ?e = "sampleEnv 7000 True"
  note defs = openWorld_def expiredWorld_def sampleRequest_def createRequestModel_def sampleEnv_def
  have g: "getRequestById openWorld ''r1'' = Some (hd (requests openWorld))"
    by (simp add: getRequestById_def defs)
  have s: "status (hd (requests openWorld)) = OPEN" by (simp add: defs)
  have n: "status (hd (requests openWorld)) \<noteq> EXPIRED" by (simp add: s)
  have a: "map_option (\<lambda>r. (needsReminderLevel r, lastReminderAt r))
       (getRequestById (snd (markReminderConfirmed ?e openWorld ''r1'' ''agent-1'' None)) ''r1'')
       = Some (0, Some 7000)"
    using markReminderConfirmed_guard_is_expired_only[OF g, of ?e "''agent-1''" None] n
    by (simp add: sampleEnv_def)
  have g': "getRequestById expiredWorld ''r1'' = Some (hd (requests expiredWorld))"
    by (simp add: getRequestById_def defs)
  have s': "status (hd (requests expiredWorld)) = EXPIRED" by (simp add: defs)
  have b: "markReminderConfirmed ?e expiredWorld ''r1'' ''agent-1'' None
       = (Thrown (Error ''Cannot confirm reminder for expired request''), expiredWorld)"
    using markReminderConfirmed_guard_is_expired_only[OF g', of ?e "''agent-1''" None] s'
    by simp
  show ?thesis by (intro conjI g s a g' b)
qed

text \<open>
  C8 as stated fails on a COMPLETED request: the confirmation returns, with the reminder
  level reset and \<open>lastReminderAt\<close> set.
\<close>

theorem markReminderConfirmed_completed_counterexample:
  "map status (requests completedWorld) = [COMPLETED]
   \<and> map needsReminderLevel (requests completedWorld) = [1]
   \<and> map_outcome (map_option (\<lambda>r. (status r, needsReminderLevel r, lastReminderAt r)))
       (fst (markReminderConfirmed (sampleEnv 7000 True) completedWorld ''r1'' ''agent-1'' None))
       = Returned (Some (COMPLETED, 0, Some 7000))"
  by (simp add: markReminderConfirmed_def getRequestById_def updateRequest_repo_def
      createAuditLog_def thenReturn_def Let_def completedWorld_def sampleRequest_def createRequestModel_def
      sampleEnv_def)

subsection \<open>Owner edits\<close>

lemma rid_updateData [simp]: "rid (updateData cur ups r) = rid r"
  by (simp add: updateData_def Let_def split: option.splits)

lemma status_updateData:
  "u_status ups = Some t \<Longrightarrow>
   status (updateData cur ups r) = (if statusChange cur ups then t else status r)"
  by (simp add: updateData_def Let_def split: option.splits)

lemma statusChange_iff:
  "u_status ups = Some t \<Longrightarrow> statusChange r ups \<longleftrightarrow> t \<noteq> [] \<and> t \<noteq> status r"
  by (simp add: statusChange_def truthy_def)

lemma updateRequest_rejected:
  assumes "getRequestById w i = Some r" "u_status ups = Some t"
    and "status r = EXPIRED" "t \<noteq> []" "t \<noteq> EXPIRED" "t \<noteq> OPEN"
  shows "updateRequest e w i ups actor ip =
         (Thrown (Error ''Expired requests can only be reopened (set to OPEN)''), w)"
  using assms by (simp add: updateRequest_def statusChange_iff)

lemma updateRequest_no_guard_error:
  assumes "getRequestById w i = Some r" "u_status ups = Some t"
    and "\<not> (status r = EXPIRED \<and> t \<noteq> [] \<and> t \<noteq> EXPIRED \<and> t \<noteq> OPEN)"
  shows "fst (updateRequest e w i ups actor ip) \<noteq> Thrown (Error msg)"
proof -
  have g: "\<not> (statusChange r ups \<and> status r = EXPIRED \<and> u_status ups \<noteq> Some OPEN)"
    using assms by (auto simp: statusChange_iff)
  show ?thesis
    using assms(1) g
    by (auto simp add: updateRequest_def awaited_def createAuditLog_def Let_def
        split: prod.splits outcome.splits option.splits if_splits)
qed

lemma updateRequest_applied:
  assumes "getRequestById w i = Some r" "u_status ups = Some t"
    and "\<not> (status r = EXPIRED \<and> t \<noteq> [] \<and> t \<noteq> EXPIRED \<and> t \<noteq> OPEN)"
    and up: "\<And>l. sinkAccepts e l"
  shows "\<exists>r'. fst (updateRequest e w i ups actor ip) = Returned (Some r')
              \<and> getRequestById (snd (updateRequest e w i ups actor ip)) i = Some r'
              \<and> status r' = (if t = [] then status r else t)"
proof -
  have g: "\<not> (statusChange r ups \<and> status r = EXPIRED \<and> u_status ups \<noteq> Some OPEN)"
    using assms by (auto simp: statusChange_iff)
  have st: "status (updateData r ups r) = (if t = [] then status r else t)"
    using assms(2) by (auto simp: status_updateData statusChange_iff)
  show ?thesis
  proof (cases "statusChange r ups \<or> notesChange r ups")
    case False
    then have "updateRequest e w i ups actor ip = (Returned (Some r), w)"
      using assms(1) by (simp add: updateRequest_def)
    moreover have "status r = (if t = [] then status r else t)"
      using False assms(2) by (auto simp: statusChange_iff)
    ultimately show ?thesis using assms(1) by simp
  next
    case True
    then have "\<exists>w2. updateRequest e w i ups actor ip =
                 (Returned (getRequestById (updateRequest_repo e w2 i (updateData r ups)) i),
                  updateRequest_repo e w2 i (updateData r ups))
               \<and> requests w2 = requests w"
      using assms(1) g
      by (auto simp add: updateRequest_def awaited_def createAuditLog_def Let_def up)
    then obtain w2 where
      u: "updateRequest e w i ups actor ip =
            (Returned (getRequestById (updateRequest_repo e w2 i (updateData r ups)) i),
             updateRequest_repo e w2 i (updateData r ups))"
      and rq: "requests w2 = requests w" by blast
    have "getRequestById w2 i = Some r" using assms(1) rq by (simp add: getRequestById_def)
    then have "getRequestById (updateRequest_repo e w2 i (updateData r ups)) i =
               Some ((updateData r ups r)\<lparr>updatedAt := clock e\<rparr>)"
      by (simp add: getRequestById_updateRequest_repo)
    then show ?thesis using u st by simp
  qed
qed

lemma updateRequest_status_edit_general:
  assumes "getRequestById w i = Some r" "u_status ups = Some t"
  shows "(status r = EXPIRED \<and> t \<noteq> [] \<and> t \<noteq> EXPIRED \<and> t \<noteq> OPEN \<longrightarrow>
            updateRequest e w i ups actor ip =
              (Thrown (Error ''Expired requests can only be reopened (set to OPEN)''), w))
       \<and> (\<not> (status r = EXPIRED \<and> t \<noteq> [] \<and> t \<noteq> EXPIRED \<and> t \<noteq> OPEN) \<longrightarrow>
            (\<forall>msg. fst (updateRequest e w i ups actor ip) \<noteq> Thrown (Error msg)))
       \<and> (\<not> (status r = EXPIRED \<and> t \<noteq> [] \<and> t \<noteq> EXPIRED \<and> t \<noteq> OPEN)
            \<and> (\<forall>l. sinkAccepts e l) \<longrightarrow>
            (\<exists>r'. fst (updateRequest e w i ups actor ip) = Returned (Some r')
                  \<and> getRequestById (snd (updateRequest e w i ups actor ip)) i = Some r'
                  \<and> status r' = (if t = [] then status r else t)))"
  using updateRequest_rejected[OF assms, of e actor ip]
    updateRequest_no_guard_error[OF assms, of e actor ip]
    updateRequest_applied[OF assms, of e actor ip]
  by blast

lemma status_nonempty:
  "t \<in> {OPEN, IN_PROGRESS, SUBMITTED, COMPLETED} \<Longrightarrow> t \<noteq> [] \<and> t \<noteq> EXPIRED"
  by (auto simp add: OPEN_def IN_PROGRESS_def SUBMITTED_def COMPLETED_def EXPIRED_def)

text \<open>
  Claim C3, as the code has it. For an existing request and an edit to a target status
  \<open>t\<close> among OPEN, IN_PROGRESS, SUBMITTED and COMPLETED, \<^verbatim>\<open>updateRequest\<close> throws its
  guard error, and changes nothing, exactly when the current status is EXPIRED and \<open>t\<close> is
  not OPEN. Every other such edit passes the guard, from COMPLETED as from any other
  status, and when the audit sink accepts the record the request is stored and returned
  with status \<open>t\<close>.
\<close>

theorem updateRequest_status_edit_guard:
  assumes "getRequestById w i = Some r" "u_status ups = Some t"
    and "t \<in> {OPEN, IN_PROGRESS, SUBMITTED, COMPLETED}"
  shows "(status r = EXPIRED \<and> t \<noteq> OPEN \<longrightarrow>
            updateRequest e w i ups actor ip =
              (Thrown (Error ''Expired requests can only be reopened (set to OPEN)''), w))
       \<and> (\<not> (status r = EXPIRED \<and> t \<noteq> OPEN) \<longrightarrow>
            (\<forall>msg. fst (updateRequest e w i ups actor ip) \<noteq> Thrown (Error msg)))
       \<and> (\<not> (status r = EXPIRED \<and> t \<noteq> OPEN) \<and> (\<forall>l. sinkAccepts e l) \<longrightarrow>
            (\<exists>r'. fst (updateRequest e w i ups actor ip) = Returned (Some r')
                  \<and> getRequestById (snd (updateRequest e w i ups actor ip)) i = Some r'
                  \<and> status r' = t))"
proof -
  have ne: "t \<noteq> []" "t \<noteq> EXPIRED" using status_nonempty[OF assms(3)] by simp_all
  show ?thesis
    using updateRequest_status_edit_general[OF assms(1,2), of e actor ip] ne
    by (simp only: simp_thms if_False)
qed

text \<open>
  C3 at concrete stores: an OPEN request is set to IN_PROGRESS, and an edit of an EXPIRED
  request to SUBMITTED is refused with the store unchanged.
\<close>

theorem updateRequest_status_edit_guard_witness:
  "getRequestById openWorld ''r1'' = Some (hd (requests openWorld))
   \<and> u_status (statusEdit IN_PROGRESS) = Some IN_PROGRESS
   \<and> map_option status
        (getRequestById (snd (updateRequest (sampleEnv 7000 True) openWorld ''r1''
                                (statusEdit IN_PROGRESS) ''agent-1'' None)) ''r1'')
       = Some IN_PROGRESS
   \<and> getRequestById expiredWorld ''r1'' = Some (hd (requests expiredWorld))
   \<and> updateRequest (sampleEnv 600000000 True) expiredWorld ''r1'' (statusEdit SUBMITTED) ''agent-1'' None
       = (Thrown (Error ''Expired requests can only be reopened (set to OPEN)''), expiredWorld)"
proof -
  let ?e = "sampleEnv 7000 True"
  let ?e' = "sampleEnv 600000000 True"
  note defs = openWorld_def expiredWorld_def sampleRequest_def createRequestModel_def sampleEnv_def
  have g: "getRequestById openWorld ''r1'' = Some (hd (requests openWorld))"
    by (simp add: getRequestById_def defs)
  have u: "u_status (statusEdit IN_PROGRESS) = Some IN_PROGRESS" by (simp add: statusEdit_def)
  have s: "status (hd (requests openWorld)) = OPEN" by (simp add: defs)
  have up: "\<forall>l. sinkAccepts ?e l" by (simp add: sampleEnv_def)
  have ne: "IN_PROGRESS \<noteq> []" by (simp add: IN_PROGRESS_def)
  have m: "IN_PROGRESS \<in> {OPEN, IN_PROGRESS, SUBMITTED, COMPLETED}" by simp
  from updateRequest_status_edit_guard[OF g u m, of ?e "''agent-1''" None,
         THEN conjunct2, THEN conjunct2] s up
  obtain r' where "getRequestById (snd (updateRequest ?e openWorld ''r1'' (statusEdit IN_PROGRESS)
                                          ''agent-1'' None)) ''r1'' = Some r'"
    and "status r' = IN_PROGRESS"
    using ne by auto
  then have a: "map_option status
        (getRequestById (snd (updateRequest ?e openWorld ''r1'' (statusEdit IN_PROGRESS)
                                ''agent-1'' None)) ''r1'') = Some IN_PROGRESS"
    by simp
  have g': "getRequestById expiredWorld ''r1'' = Some (hd (requests expiredWorld))"
    by (simp add: getRequestById_def defs)
  have u': "u_status (statusEdit SUBMITTED) = Some SUBMITTED" by (simp add: statusEdit_def)
  have s': "status (hd (requests expiredWorld)) = EXPIRED" by (simp add: defs)
  have m': "SUBMITTED \<in> {OPEN, IN_PROGRESS, SUBMITTED, COMPLETED}" by simp
  have b: "updateRequest ?e' expiredWorld ''r1'' (statusEdit SUBMITTED) ''agent-1'' None
       = (Thrown (Error ''Expired requests can only be reopened (set to OPEN)''), expiredWorld)"
    using updateRequest_status_edit_guard[OF g' u' m', of ?e' "''agent-1''" None, THEN conjunct1] s'
    by simp
  show ?thesis by (intro conjI g u a g' b)
qed

text \<open>
  C3 as stated fails three ways: a COMPLETED request is status-edited to OPEN, an OPEN
  request is set to EXPIRED by an edit, and an EXPIRED request is set to OPEN by an edit.
\<close>

theorem updateRequest_status_edit_counterexample:
  "map status (requests completedWorld) = [COMPLETED]
   \<and> map_outcome (map_option status)
        (fst (updateRequest (sampleEnv 7000 True) completedWorld ''r1'' (statusEdit OPEN)
                ''agent-1'' None))
       = Returned (Some OPEN)
   \<and> map status (requests openWorld) = [OPEN]
   \<and> map_outcome (map_option (\<lambda>r. (status r, expiredAt r)))
        (fst (updateRequest (sampleEnv 7000 True) openWorld ''r1'' (statusEdit EXPIRED)
                ''agent-1'' None))
       = Returned (Some (EXPIRED, None))
   \<and> map status (requests expiredWorld) = [EXPIRED]
   \<and> map_outcome (map_option status)
        (fst (updateRequest (sampleEnv 600000000 True) expiredWorld ''r1'' (statusEdit OPEN)
                ''agent-1'' None))
       = Returned (Some OPEN)"
proof -
  note defs = updateRequest_def getRequestById_def updateRequest_repo_def createAuditLog_def
    awaited_def updateData_def statusChange_def notesChange_def truthy_def statusEdit_def Let_def
    sampleRequest_def createRequestModel_def sampleEnv_def
  have ne: "OPEN \<noteq> []" "EXPIRED \<noteq> []" by (simp_all add: OPEN_def EXPIRED_def)
  have a: "map_outcome (map_option status)
        (fst (updateRequest (sampleEnv 7000 True) completedWorld ''r1'' (statusEdit OPEN)
                ''agent-1'' None)) = Returned (Some OPEN)"
    by (simp add: defs completedWorld_def ne)
  have b: "map_outcome (map_option (\<lambda>r. (status r, expiredAt r)))
        (fst (updateRequest (sampleEnv 7000 True) openWorld ''r1'' (statusEdit EXPIRED)
                ''agent-1'' None)) = Returned (Some (EXPIRED, None))"
    by (simp add: defs openWorld_def ne)
  have c: "map_outcome (map_option status)
        (fst (updateRequest (sampleEnv 600000000 True) expiredWorld ''r1'' (statusEdit OPEN)
                ''agent-1'' None)) = Returned (Some OPEN)"
    by (simp add: defs expiredWorld_def ne)
  have s: "map status (requests completedWorld) = [COMPLETED]"
    "map status (requests openWorld) = [OPEN]" "map status (requests expiredWorld) = [EXPIRED]"
    by (simp_all add: completedWorld_def openWorld_def expiredWorld_def sampleRequest_def)
  show ?thesis by (intro conjI s a b c)
qed

subsection \<open>Request details\<close>

lemma getDocumentUploadStatus_flags:
  "getDocumentUploadStatus w i =
     map (\<lambda>t. (t, \<exists>d\<in>set (documents w). doc_requestId d = i \<and> doc_type d = t)) DOCUMENT_TYPES"
  by (auto simp add: getDocumentUploadStatus_def getDocumentsByRequestId_def Let_def image_iff)

text \<open>
  Claim C10. For an existing request whose status is neither SUBMITTED nor COMPLETED and
  whose review status is neither APPROVED nor REJECTED, \<^verbatim>\<open>getRequestDetails\<close> returns
  the request with an empty document list and with the upload flag of each of the four
  document types; in every other state the document list is the request's documents.
\<close>

theorem getRequestDetails_documents_after_submission:
  assumes "getRequestById w i = Some r"
  shows "(status r \<notin> {SUBMITTED, COMPLETED} \<and> reviewStatus r \<notin> {APPROVED, REJECTED} \<longrightarrow>
            getRequestDetails w i =
              Some \<lparr> details_request = r, details_documents = [],
                     details_documentStatus =
                       map (\<lambda>t. (t, \<exists>d\<in>set (documents w). doc_requestId d = i \<and> doc_type d = t))
                           DOCUMENT_TYPES \<rparr>)
       \<and> (status r \<in> {SUBMITTED, COMPLETED} \<or> reviewStatus r \<in> {APPROVED, REJECTED} \<longrightarrow>
            getRequestDetails w i =
              Some \<lparr> details_request = r, details_documents = getDocumentsByRequestId w i,
                     details_documentStatus =
                       map (\<lambda>t. (t, \<exists>d\<in>set (documents w). doc_requestId d = i \<and> doc_type d = t))
                           DOCUMENT_TYPES \<rparr>)"
  using assms by (auto simp add: getRequestDetails_def Let_def getDocumentUploadStatus_flags)

theorem getRequestDetails_documents_after_submission_witness:
  "getRequestById uploadingWorld ''r1'' = Some (hd (requests uploadingWorld))
   \<and> status (hd (requests uploadingWorld)) = IN_PROGRESS
   \<and> reviewStatus (hd (requests uploadingWorld)) = PENDING
   \<and> length (documents uploadingWorld) = 4
   \<and> map_option details_documents (getRequestDetails uploadingWorld ''r1'') = Some []
   \<and> map_option details_documentStatus (getRequestDetails uploadingWorld ''r1'')
       = Some [(''ID'', True), (''LICENCE'', True), (''PROOF_OF_ADDRESS'', True),
               (''BANK_STATEMENT'', True)]"
proof -
  note defs = uploadingWorld_def sampleRequest_def createRequestModel_def sampleEnv_def
    sampleDocs_def DOCUMENT_TYPES_def
  have g: "getRequestById uploadingWorld ''r1'' = Some (hd (requests uploadingWorld))"
    by (simp add: getRequestById_def defs)
  have s: "status (hd (requests uploadingWorld)) = IN_PROGRESS"
    and v: "reviewStatus (hd (requests uploadingWorld)) = PENDING"
    and n: "length (documents uploadingWorld) = 4"
    by (simp_all add: defs)
  have h: "status (hd (requests uploadingWorld)) \<notin> {SUBMITTED, COMPLETED}
           \<and> reviewStatus (hd (requests uploadingWorld)) \<notin> {APPROVED, REJECTED}"
    by (simp add: s v)
  note t = getRequestDetails_documents_after_submission[OF g, THEN conjunct1, rule_format, OF h]
  have a: "map_option details_documents (getRequestDetails uploadingWorld ''r1'') = Some []"
    by (simp add: t)
  have b: "map_option details_documentStatus (getRequestDetails uploadingWorld ''r1'')
       = Some [(''ID'', True), (''LICENCE'', True), (''PROOF_OF_ADDRESS'', True),
               (''BANK_STATEMENT'', True)]"
    by (simp add: t) (simp add: defs)
  show ?thesis by (intro conjI g s v n a b)
qed

subsection \<open>Rejected document types and the review status\<close>

lemma slotsInvariant_frame [simp]:
  "slotsInvariant (w\<lparr>auditLogs := ls\<rparr>) = slotsInvariant w"
  "slotsInvariant (w\<lparr>documents := ds\<rparr>) = slotsInvariant w"
  by (simp_all add: slotsInvariant_def)

lemma slotsInvariant_requests: "requests w' = requests w \<Longrightarrow> slotsInvariant w' = slotsInvariant w"
  by (simp add: slotsInvariant_def)

lemma slotsInvariant_updateRequest_repo:
  assumes "slotsInvariant w"
    and "\<And>r. slotsAfterRejection r \<Longrightarrow> slotsAfterRejection (f r)"
  shows "slotsInvariant (updateRequest_repo e w i f)"
proof -
  have "slotsAfterRejection ((f r)\<lparr>updatedAt := t\<rparr>) = slotsAfterRejection (f r)" for r t
    by (simp add: slotsAfterRejection_def rejectedSlots_def)
  then show ?thesis
    using assms by (auto simp add: slotsInvariant_def updateRequest_repo_def list_all_iff)
qed

lemma slotsInvariant_createAuditLog [simp]:
  "slotsInvariant (snd (createAuditLog e k w a act i ip m)) = slotsInvariant w"
  by (rule slotsInvariant_requests) simp

lemma slotsInvariant_uploadDocument:
  assumes "slotsInvariant w"
  shows "slotsInvariant (snd (uploadDocument e w i t f ip))"
proof (cases "getRequestById w i")
  case None
  then show ?thesis using assms by (simp add: uploadDocument_def)
next
  case (Some r)
  have "slotsInvariant (updateRequest_repo e w' i (\<lambda>r. r\<lparr>completionPercent := p\<rparr>))"
    if "slotsInvariant w'" for w' p
    using that by (rule slotsInvariant_updateRequest_repo) (simp add: slotsAfterRejection_def rejectedSlots_def)
  then show ?thesis
    using assms Some
    by (simp add: uploadDocument_def Let_def createDocument_def split: option.splits)
qed

lemma slotsInvariant_submitRequest:
  assumes "slotsInvariant w"
  shows "slotsInvariant (snd (submitRequest e w i ip))"
proof (cases "getRequestById w i")
  case None
  then show ?thesis using assms by (simp add: submitRequest_def)
next
  case (Some r)
  have "slotsInvariant (updateRequest_repo e w i
          (\<lambda>r. r\<lparr>status := SUBMITTED, completionPercent := 100, reviewStatus := PENDING\<rparr>))"
    using assms by (rule slotsInvariant_updateRequest_repo) (simp add: slotsAfterRejection_def rejectedSlots_def)
  then show ?thesis using assms Some by (simp add: submitRequest_def Let_def)
qed

lemma slotsInvariant_updateRequest:
  assumes "slotsInvariant w"
  shows "slotsInvariant (snd (updateRequest e w i ups a ip))"
proof (cases "getRequestById w i")
  case None
  then show ?thesis using assms by (simp add: updateRequest_def)
next
  case (Some r)
  have u: "slotsInvariant (updateRequest_repo e w' i (updateData r ups))" if "slotsInvariant w'" for w'
    using that
    by (rule slotsInvariant_updateRequest_repo)
       (simp add: slotsAfterRejection_def updateData_def Let_def rejectedSlots_def
          split: option.splits)
  show ?thesis
    using assms Some u
    by (auto simp add: updateRequest_def Let_def awaited_def createAuditLog_def
        split: prod.splits option.splits)
qed

lemma slotsInvariant_markReminderConfirmed:
  assumes "slotsInvariant w"
  shows "slotsInvariant (snd (markReminderConfirmed e w i a ip))"
proof (cases "getRequestById w i")
  case None
  then show ?thesis using assms by (simp add: markReminderConfirmed_def)
next
  case (Some r)
  have "slotsInvariant (updateRequest_repo e w i
          (\<lambda>r. r\<lparr>needsReminderLevel := 0, lastReminderAt := Some (clock e)\<rparr>))"
    using assms by (rule slotsInvariant_updateRequest_repo) (simp add: slotsAfterRejection_def rejectedSlots_def)
  then show ?thesis using assms Some by (simp add: markReminderConfirmed_def Let_def)
qed

lemma slotsInvariant_reopenRequest:
  assumes "slotsInvariant w"
  shows "slotsInvariant (snd (reopenRequest e w i a ip))"
proof (cases "getRequestById w i")
  case None
  then show ?thesis using assms by (simp add: reopenRequest_def)
next
  case (Some r)
  have "slotsInvariant (updateRequest_repo e w i
          (\<lambda>r. r\<lparr>status := OPEN, expiredAt := None, needsReminderLevel := 0, lastReminderAt := None\<rparr>))"
    using assms by (rule slotsInvariant_updateRequest_repo) (simp add: slotsAfterRejection_def rejectedSlots_def)
  then show ?thesis using assms Some by (simp add: reopenRequest_def Let_def)
qed

lemma slotsInvariant_reviewRequest:
  assumes "slotsInvariant w"
  shows "slotsInvariant (snd (reviewRequest e w i d c a ip ts))"
proof (cases "getRequestById w i")
  case None
  then show ?thesis using assms by (simp add: reviewRequest_def)
next
  case (Some r)
  have "slotsInvariant (updateRequest_repo e w i (reviewData e d c a ts))"
    using assms
    by (rule slotsInvariant_updateRequest_repo)
       (simp add: slotsAfterRejection_def reviewData_def Let_def rejectedSlots_def)
  then show ?thesis using assms Some by (simp add: reviewRequest_def Let_def)
qed

lemma slotsInvariant_fold:
  assumes "\<And>x w. slotsInvariant w \<Longrightarrow> slotsInvariant (step x w)" "slotsInvariant w"
  shows "slotsInvariant (fold step xs w)"
  using assms(2) by (induction xs arbitrary: w) (simp_all add: assms(1))

lemma slotsInvariant_processExpiry:
  assumes "slotsInvariant w"
  shows "slotsInvariant (processExpiry e w)"
  unfolding processExpiry_def
proof (rule slotsInvariant_fold[OF _ assms])
  fix x :: request and w' assume "slotsInvariant w'"
  then have "slotsInvariant (updateRequest_repo e w' (rid x)
               (\<lambda>r. r\<lparr>status := EXPIRED, expiredAt := Some (clock e)\<rparr>))"
    by (rule slotsInvariant_updateRequest_repo) (simp add: slotsAfterRejection_def rejectedSlots_def)
  then show "slotsInvariant (expiryStep e x w')"
    using \<open>slotsInvariant w'\<close> by (simp add: expiryStep_def)
qed

lemma slotsInvariant_processReminders:
  assumes "slotsInvariant w"
  shows "slotsInvariant (processReminders e w)"
  unfolding processReminders_def
proof (rule slotsInvariant_fold[OF _ assms])
  fix x :: request and w' assume h: "slotsInvariant w'"
  have "slotsInvariant (updateRequest_repo e w' (rid x) (\<lambda>r. r\<lparr>needsReminderLevel := n\<rparr>))" for n
    using h by (rule slotsInvariant_updateRequest_repo) (simp add: slotsAfterRejection_def rejectedSlots_def)
  then show "slotsInvariant (reminderStep e x w')"
    using h by (simp add: reminderStep_def split: option.splits)
qed

lemma slotsInvariant_run: "slotsInvariant w \<Longrightarrow> slotsInvariant (snd (run e opn w))"
  by (cases opn)
     (simp_all add: slotsInvariant_uploadDocument slotsInvariant_submitRequest
        slotsInvariant_updateRequest slotsInvariant_markReminderConfirmed slotsInvariant_reopenRequest
        slotsInvariant_reviewRequest slotsInvariant_processExpiry slotsInvariant_processReminders)

lemma slotsInvariant_runAll: "slotsInvariant w \<Longrightarrow> slotsInvariant (snd (runAll ops w))"
proof (induction ops arbitrary: w)
  case Nil
  then show ?case by simp
next
  case (Cons a ops)
  obtain e opn where a: "a = (e, opn)" by (cases a)
  show ?case using Cons.prems by (simp add: a Cons.IH slotsInvariant_run)
qed

lemma submitRequest_commits:
  assumes "getRequestById w i = Some r" "status r \<noteq> EXPIRED" "status r \<noteq> COMPLETED"
    "reviewStatus r \<noteq> APPROVED" "areAllDocumentsUploaded w i"
  shows "getRequestById (snd (submitRequest e w i ip)) i =
           Some (r\<lparr>status := SUBMITTED, completionPercent := 100, reviewStatus := PENDING,
                   updatedAt := clock e\<rparr>)"
    and "fst (submitRequest e w i ip) \<noteq> Thrown (Error msg)"
    and "(\<And>l. sinkAccepts e l) \<Longrightarrow>
         fst (submitRequest e w i ip) =
           Returned (Some (r\<lparr>status := SUBMITTED, completionPercent := 100, reviewStatus := PENDING,
                             updatedAt := clock e\<rparr>))"
  using assms
  by (auto simp add: submitRequest_def Let_def thenReturn_def createAuditLog_def
      getRequestById_updateRequest_repo split: prod.splits outcome.splits)

lemma slotsInvariant_request:
  assumes "slotsInvariant w" "getRequestById w i = Some r"
  shows "slotsAfterRejection r"
proof -
  have "r \<in> set (requests w)"
    using assms(2) by (auto simp add: getRequestById_def find_Some_iff)
  then show ?thesis using assms(1) by (simp add: slotsInvariant_def list_all_iff)
qed

lemma uploadingWorld_complete: "areAllDocumentsUploaded uploadingWorld ''r1''"
  by (simp add: areAllDocumentsUploaded_def getDocumentUploadStatus_flags uploadingWorld_def
      sampleDocs_def DOCUMENT_TYPES_def)

lemma rejectedWorld_request:
  "getRequestById (reuploaded ts t rejectedWorld) ''r1'' = Some rejectedRequest"
  "getRequestById rejectedWorld ''r1'' = Some rejectedRequest"
  by (simp_all add: getRequestById_def reuploaded_def rejectedWorld_def rejectedRequest_def
      sampleRequest_def createRequestModel_def)

lemma rejectedRequest_fields:
  "status rejectedRequest = IN_PROGRESS" "reviewStatus rejectedRequest = REJECTED"
  "rejectedSlots rejectedRequest = [''ID'', ''PROOF_OF_ADDRESS'']"
  "reviewedAt rejectedRequest = Some 2000" "rid rejectedRequest = ''r1''"
  by (simp_all add: rejectedRequest_def sampleRequest_def createRequestModel_def rejectedSlots_def)

lemma rejectedWorld_complete:
  "areAllDocumentsUploaded (reuploaded ts t rejectedWorld) ''r1''"
  "areAllDocumentsUploaded rejectedWorld ''r1''"
  by (simp_all add: areAllDocumentsUploaded_def getDocumentUploadStatus_flags reuploaded_def
      rejectedWorld_def sampleDocs_def DOCUMENT_TYPES_def)

lemma submit_after_rejection:
  assumes "getRequestById w ''r1'' = Some rejectedRequest" "areAllDocumentsUploaded w ''r1''"
  shows "map_outcome (map_option (\<lambda>r. (status r, reviewStatus r, rejectedSlots r)))
           (fst (submitRequest (sampleEnv 4000 True) w ''r1'' None))
         = Returned (Some (SUBMITTED, PENDING, [''ID'', ''PROOF_OF_ADDRESS'']))"
proof -
  have "fst (submitRequest (sampleEnv 4000 True) w ''r1'' None) =
           Returned (Some (rejectedRequest\<lparr>status := SUBMITTED, completionPercent := 100,
                             reviewStatus := PENDING, updatedAt := clock (sampleEnv 4000 True)\<rparr>))"
    using assms by (intro submitRequest_commits(3)) (simp_all add: rejectedRequest_fields sampleEnv_def)
  then show ?thesis
    by (simp add: rejectedSlots_def rejectedRequest_def)
qed

text \<open>
  Claim C2, as the code has it. A request carries rejected document types only if it has
  been reviewed and its review status is REJECTED or PENDING: a new request has none, an
  APPROVE review clears them, and every operation keeps the relation; so they are empty
  whenever the review status is APPROVED and on every request that was never reviewed. A
  submission that passes its guards stores status SUBMITTED, completion 100 and review
  status PENDING and nothing else, so after a resubmission the rejected document types of
  the last rejection stay stored while the review status is PENDING.
\<close>

theorem rejectedDocumentTypes_cleared_on_approval_kept_on_submit:
  "slotsInvariant \<lparr> requests = [createRequestModel e i agent token nts], documents = [],
                     auditLogs = [] \<rparr>
   \<and> (slotsInvariant w \<longrightarrow> slotsInvariant (snd (run e opn w)))
   \<and> (slotsInvariant w \<and> getRequestById w i = Some r \<and> rejectedSlots r \<noteq> [] \<longrightarrow>
        reviewedAt r \<noteq> None \<and> (reviewStatus r = REJECTED \<or> reviewStatus r = PENDING))
   \<and> (getRequestById w i = Some r \<and> status r = SUBMITTED \<longrightarrow>
        map_option (\<lambda>r'. (reviewStatus r', rejectedSlots r'))
          (getRequestById (snd (reviewRequest e w i ''APPROVE'' comment actor ip slots)) i)
        = Some (APPROVED, []))
   \<and> (getRequestById w i = Some r \<and> status r \<noteq> EXPIRED \<and> status r \<noteq> COMPLETED
        \<and> reviewStatus r \<noteq> APPROVED \<and> areAllDocumentsUploaded w i \<longrightarrow>
        getRequestById (snd (submitRequest e w i ip)) i =
          Some (r\<lparr>status := SUBMITTED, completionPercent := 100, reviewStatus := PENDING,
                  updatedAt := clock e\<rparr>))"
proof (intro conjI impI)
  show "slotsInvariant \<lparr> requests = [createRequestModel e i agent token nts], documents = [],
                          auditLogs = [] \<rparr>"
    by (simp add: slotsInvariant_def slotsAfterRejection_def createRequestModel_def
        rejectedSlots_def)
next
  assume "slotsInvariant w"
  then show "slotsInvariant (snd (run e opn w))" by (rule slotsInvariant_run)
next
  assume h: "slotsInvariant w \<and> getRequestById w i = Some r \<and> rejectedSlots r \<noteq> []"
  then have "slotsAfterRejection r" by (intro slotsInvariant_request[of w i]) simp_all
  with h show "reviewedAt r \<noteq> None" by (simp add: slotsAfterRejection_def)
  from \<open>slotsAfterRejection r\<close> h show "reviewStatus r = REJECTED \<or> reviewStatus r = PENDING"
    by (simp add: slotsAfterRejection_def)
next
  assume h: "getRequestById w i = Some r \<and> status r = SUBMITTED"
  then have "getRequestById (snd (reviewRequest e w i ''APPROVE'' comment actor ip slots)) i =
             Some ((reviewData e ''APPROVE'' comment actor slots r)\<lparr>updatedAt := clock e\<rparr>)"
    by (intro reviewRequest_commits(1)) simp_all
  then show "map_option (\<lambda>r'. (reviewStatus r', rejectedSlots r'))
          (getRequestById (snd (reviewRequest e w i ''APPROVE'' comment actor ip slots)) i)
        = Some (APPROVED, [])"
    by (simp add: reviewData_def Let_def rejectedSlots_def)
next
  assume "getRequestById w i = Some r \<and> status r \<noteq> EXPIRED \<and> status r \<noteq> COMPLETED
        \<and> reviewStatus r \<noteq> APPROVED \<and> areAllDocumentsUploaded w i"
  then show "getRequestById (snd (submitRequest e w i ip)) i =
          Some (r\<lparr>status := SUBMITTED, completionPercent := 100, reviewStatus := PENDING,
                  updatedAt := clock e\<rparr>)"
    by (intro submitRequest_commits(1)) simp_all
qed

text \<open>
  C2 at concrete stores: a REJECT review of the request of \<open>submittedWorld\<close> keeps the
  relation, an APPROVE review stores APPROVED with no rejected document types, the
  rejected request of \<open>rejectedWorld\<close> satisfies the relation, and the first submission of
  the request of \<open>uploadingWorld\<close> stores PENDING with no rejected document types.
\<close>

theorem rejectedDocumentTypes_cleared_on_approval_kept_on_submit_witness:
  "slotsInvariant submittedWorld
   \<and> slotsInvariant (snd (run (sampleEnv 2000 True)
                            (Review ''r1'' ''REJECT'' (Some ''fix ID'') ''agent-1'' None [''ID''])
                            submittedWorld))
   \<and> slotsInvariant rejectedWorld
   \<and> getRequestById rejectedWorld ''r1'' = Some rejectedRequest
   \<and> rejectedSlots rejectedRequest = [''ID'', ''PROOF_OF_ADDRESS'']
   \<and> reviewedAt rejectedRequest \<noteq> None
   \<and> getRequestById submittedWorld ''r1'' = Some (hd (requests submittedWorld))
   \<and> status (hd (requests submittedWorld)) = SUBMITTED
   \<and> map_option (\<lambda>r'. (reviewStatus r', rejectedSlots r'))
        (getRequestById
           (snd (reviewRequest (sampleEnv 2000 True) submittedWorld ''r1'' ''APPROVE'' None
                   ''agent-1'' None []))
           ''r1'')
      = Some (APPROVED, [])
   \<and> getRequestById uploadingWorld ''r1'' = Some (hd (requests uploadingWorld))
   \<and> areAllDocumentsUploaded uploadingWorld ''r1''
   \<and> map_option (\<lambda>r'. (status r', reviewStatus r', rejectedDocumentTypes r'))
        (getRequestById (snd (submitRequest (sampleEnv 2000 True) uploadingWorld ''r1'' None)) ''r1'')
      = Some (SUBMITTED, PENDING, None)"
proof -
  let ?e = "sampleEnv 2000 True"
  note defs = submittedWorld_def uploadingWorld_def sampleRequest_def createRequestModel_def
    sampleEnv_def
  note t = rejectedDocumentTypes_cleared_on_approval_kept_on_submit
  have c0: "slotsInvariant submittedWorld"
    by (simp add: slotsInvariant_def slotsAfterRejection_def defs rejectedSlots_def)
  have c1: "slotsInvariant (snd (run ?e (Review ''r1'' ''REJECT'' (Some ''fix ID'') ''agent-1'' None
                                          [''ID'']) submittedWorld))"
    using t[of ?e _ _ _ _ submittedWorld, THEN conjunct2, THEN conjunct1] c0 by blast
  have c2: "slotsInvariant rejectedWorld"
    by (simp add: slotsInvariant_def slotsAfterRejection_def rejectedWorld_def
        rejectedRequest_fields)
  have ne: "rejectedSlots rejectedRequest \<noteq> []" by (simp add: rejectedRequest_fields)
  have c3: "reviewedAt rejectedRequest \<noteq> None"
    using t[of ?e "''r1''" _ _ _ rejectedWorld _ rejectedRequest,
            THEN conjunct2, THEN conjunct2, THEN conjunct1] c2 rejectedWorld_request(2) ne
    by blast
  have g: "getRequestById submittedWorld ''r1'' = Some (hd (requests submittedWorld))"
    by (simp add: getRequestById_def defs)
  have s: "status (hd (requests submittedWorld)) = SUBMITTED" by (simp add: defs)
  have a: "map_option (\<lambda>r'. (reviewStatus r', rejectedSlots r'))
        (getRequestById
           (snd (reviewRequest ?e submittedWorld ''r1'' ''APPROVE'' None ''agent-1'' None [])) ''r1'')
      = Some (APPROVED, [])"
    using t[of ?e "''r1''" _ _ _ submittedWorld _ "hd (requests submittedWorld)",
            THEN conjunct2, THEN conjunct2, THEN conjunct2, THEN conjunct1] g s
    by blast
  have g': "getRequestById uploadingWorld ''r1'' = Some (hd (requests uploadingWorld))"
    by (simp add: getRequestById_def defs)
  have h': "status (hd (requests uploadingWorld)) \<noteq> EXPIRED
            \<and> status (hd (requests uploadingWorld)) \<noteq> COMPLETED
            \<and> reviewStatus (hd (requests uploadingWorld)) \<noteq> APPROVED"
    by (simp add: defs)
  have "getRequestById (snd (submitRequest ?e uploadingWorld ''r1'' None)) ''r1'' =
          Some ((hd (requests uploadingWorld))\<lparr>status := SUBMITTED, completionPercent := 100,
                  reviewStatus := PENDING, updatedAt := clock ?e\<rparr>)"
    using t[of ?e "''r1''" _ _ _ uploadingWorld _ "hd (requests uploadingWorld)",
            THEN conjunct2, THEN conjunct2, THEN conjunct2, THEN conjunct2] g' h'
      uploadingWorld_complete
    by blast
  then have b: "map_option (\<lambda>r'. (status r', reviewStatus r', rejectedDocumentTypes r'))
        (getRequestById (snd (submitRequest ?e uploadingWorld ''r1'' None)) ''r1'')
      = Some (SUBMITTED, PENDING, None)"
    by (simp add: defs)
  show ?thesis
    by (intro conjI c0 c1 c2 rejectedWorld_request(2) rejectedRequest_fields(3) c3 g s a g'
        uploadingWorld_complete b)
qed

text \<open>
  C2 as stated fails on a resubmission. The request of \<open>rejectedWorld\<close> was rejected at time
  2000 with two document types to upload again; both are uploaded again at time 3000 and
  the request is submitted: the review status is PENDING and the two rejected document
  types are still stored.
\<close>

theorem submitRequest_keeps_rejectedDocumentTypes_counterexample:
  "reviewStatus rejectedRequest = REJECTED
   \<and> rejectedSlots rejectedRequest = [''ID'', ''PROOF_OF_ADDRESS'']
   \<and> reuploadedSinceRejection (reuploaded [''ID'', ''PROOF_OF_ADDRESS''] 3000 rejectedWorld)
        rejectedRequest
   \<and> map_outcome (map_option (\<lambda>r. (status r, reviewStatus r, rejectedSlots r)))
        (fst (submitRequest (sampleEnv 4000 True)
                (reuploaded [''ID'', ''PROOF_OF_ADDRESS''] 3000 rejectedWorld) ''r1'' None))
      = Returned (Some (SUBMITTED, PENDING, [''ID'', ''PROOF_OF_ADDRESS'']))"
proof -
  have a: "reuploadedSinceRejection (reuploaded [''ID'', ''PROOF_OF_ADDRESS''] 3000 rejectedWorld)
             rejectedRequest"
    by (simp add: reuploadedSinceRejection_def rejectedRequest_fields reuploaded_def
        rejectedWorld_def sampleDocs_def DOCUMENT_TYPES_def)
  show ?thesis
    by (intro conjI rejectedRequest_fields a
        submit_after_rejection[OF rejectedWorld_request(1) rejectedWorld_complete(1)])
qed

subsection \<open>Submission after a rejection\<close>

text \<open>
  Claim C1 fails on the code. The request of \<open>rejectedWorld\<close> was rejected at time 2000 with
  \<^verbatim>\<open>rejectedDocumentTypes = [ID, PROOF_OF_ADDRESS]\<close>; all four documents date from time
  500. \<^verbatim>\<open>submitRequest\<close> returns the request as SUBMITTED although no rejected document
  was uploaded again, and likewise after only ID was uploaded again. The customer portal's
  own gate \<^verbatim>\<open>canSubmit\<close> blocks both and opens once both types were uploaded, so the
  rule is enforced by the page only.
\<close>

theorem submitRequest_ignores_rejectedDocumentTypes:
  "\<not> reuploadedSinceRejection rejectedWorld rejectedRequest
   \<and> map_outcome (map_option (\<lambda>r. (status r, reviewStatus r, rejectedSlots r)))
        (fst (submitRequest (sampleEnv 4000 True) rejectedWorld ''r1'' None))
      = Returned (Some (SUBMITTED, PENDING, [''ID'', ''PROOF_OF_ADDRESS'']))
   \<and> \<not> reuploadedSinceRejection (reuploaded [''ID''] 3000 rejectedWorld) rejectedRequest
   \<and> map_outcome (map_option (\<lambda>r. (status r, reviewStatus r, rejectedSlots r)))
        (fst (submitRequest (sampleEnv 4000 True) (reuploaded [''ID''] 3000 rejectedWorld) ''r1'' None))
      = Returned (Some (SUBMITTED, PENDING, [''ID'', ''PROOF_OF_ADDRESS'']))
   \<and> \<not> canSubmit rejectedRequest (getDocumentUploadStatus rejectedWorld ''r1'') []
   \<and> \<not> canSubmit rejectedRequest (getDocumentUploadStatus rejectedWorld ''r1'') [''ID'']
   \<and> canSubmit rejectedRequest (getDocumentUploadStatus rejectedWorld ''r1'')
        [''PROOF_OF_ADDRESS'', ''ID'']"
proof -
  have a: "\<not> reuploadedSinceRejection rejectedWorld rejectedRequest"
    by (simp add: reuploadedSinceRejection_def rejectedRequest_fields rejectedWorld_def
        sampleDocs_def DOCUMENT_TYPES_def)
  have b: "\<not> reuploadedSinceRejection (reuploaded [''ID''] 3000 rejectedWorld) rejectedRequest"
    by (simp add: reuploadedSinceRejection_def rejectedRequest_fields reuploaded_def
        rejectedWorld_def sampleDocs_def DOCUMENT_TYPES_def)
  have st: "list_all snd (getDocumentUploadStatus rejectedWorld ''r1'')"
    using rejectedWorld_complete(2) by (simp add: areAllDocumentsUploaded_def)
  have c: "\<not> canSubmit rejectedRequest (getDocumentUploadStatus rejectedWorld ''r1'') []"
    "\<not> canSubmit rejectedRequest (getDocumentUploadStatus rejectedWorld ''r1'') [''ID'']"
    "canSubmit rejectedRequest (getDocumentUploadStatus rejectedWorld ''r1'')
        [''PROOF_OF_ADDRESS'', ''ID'']"
    by (simp_all add: canSubmit_def Let_def st rejectedRequest_fields)
  show ?thesis
    by (intro conjI a b c submit_after_rejection[OF rejectedWorld_request(2) rejectedWorld_complete(2)]
        submit_after_rejection[OF rejectedWorld_request(1) rejectedWorld_complete(1)])
qed

subsection \<open>The completion percentage\<close>












lemma uploadDocument_unfold:
  assumes "getRequestById w i = Some r" "status r \<noteq> EXPIRED" "status r \<noteq> COMPLETED"
    "reviewStatus r \<noteq> APPROVED" "t \<in> set DOCUMENT_TYPES"
  shows "uploadDocument e w i t f ip =
     (let w1 = (case getDocumentByType w i t of
                        None \<Rightarrow> w
                      | Some existingDoc \<Rightarrow>
                          if doc_id existingDoc \<noteq> []
                          then w\<lparr>documents :=
                                   filter (\<lambda>d. doc_id d \<noteq> doc_id existingDoc) (documents w)\<rparr>
                          else w);
          nd = \<lparr> doc_id = autoId e 0, doc_requestId = i, doc_type = t, doc_storagePath = f,
                           doc_uploadedAt = clock e, doc_checksum = None \<rparr>;
          w2 = w1\<lparr>documents := documents w1 @ [nd]\<rparr>;
          w3 = updateRequest_repo e w2 i (\<lambda>r. r\<lparr>completionPercent := calculateCompletionPercent w2 i\<rparr>)
      in thenReturn (createAuditLog e 1 w3 ''customer'' ''CUSTOMER_UPLOADED_DOCUMENT'' i ip
                         [(''documentType'', [t])]) (\<lambda>_. nd))"
  unfolding uploadDocument_def createDocument_def Let_def
  using assms by (simp only: option.case if_False if_True not_True_eq_False simp_thms split_conv)





text \<open>
  The number of required document types is a constant of the source, four. The expression
  of \<^verbatim>\<open>calculateCompletionPercent\<close> divides before it multiplies, in binary64, so its
  agreement with the exact rounding is a fact about that total: at 23 of 40, a total the
  source does not have, the product is 57.49999999999999 and the result 57, while
  \<open>100 * 23 / 40 = 57.5\<close> rounds half up to 58.
\<close>

lemma percentOf_binary64_23_of_40:
  "percentOf 23 40 = 57 \<and> roundHalfUp (100 * of_nat 23 / of_nat 40) = 58
   \<and> fl (fl (of_nat 23 / of_nat 40) * 100) < 115 / 2"
  by code_simp

subsection \<open>A failing audit sink\<close>

lemma sink_independent [simp]:
  "updateRequest_repo (sinkUp e) w i g = updateRequest_repo e w i g"
  "updateRequest_repo (sinkDown e) w i g = updateRequest_repo e w i g"
  "createDocument (sinkUp e) w i t f = createDocument e w i t f"
  "createDocument (sinkDown e) w i t f = createDocument e w i t f"
  "reviewData (sinkUp e) = reviewData e"
  "reviewData (sinkDown e) = reviewData e"
  by (simp_all add: updateRequest_repo_def createDocument_def reviewData_def fun_eq_iff)

lemma thenReturn_sink:
  assumes "auditLogs W = auditLogs w"
  shows "thenReturn (createAuditLog (sinkDown e) k W a act i ip m) v' =
           (Thrown SinkRejected,
            (snd (thenReturn (createAuditLog (sinkUp e) k W a act i ip m) v))\<lparr>auditLogs := auditLogs w\<rparr>)"
    and "\<exists>entry. auditLogs (snd (thenReturn (createAuditLog (sinkUp e) k W a act i ip m) v)) =
                   auditLogs w @ [entry]"
  using assms by (simp_all add: thenReturn_def flip: assms)

lemma thrown_None: "thrown x = None \<longleftrightarrow> (\<exists>v. x = Returned v)"
  by (cases x) (simp_all add: thrown_def)

lemma thrown_Thrown [simp]: "thrown (Thrown x) = Some x"
  by (simp add: thrown_def)

lemma submitRequest_sink:
  assumes "thrown (fst (submitRequest (sinkUp e) w i ip)) = None"
  shows "submitRequest (sinkDown e) w i ip =
           (Thrown SinkRejected, (snd (submitRequest (sinkUp e) w i ip))\<lparr>auditLogs := auditLogs w\<rparr>)"
    and "\<exists>entry. auditLogs (snd (submitRequest (sinkUp e) w i ip)) = auditLogs w @ [entry]"
proof -
  obtain r where g: "getRequestById w i = Some r"
    using assms by (cases "getRequestById w i") (simp_all add: submitRequest_def)
  have guards: "status r \<noteq> EXPIRED \<and> status r \<noteq> COMPLETED \<and> reviewStatus r \<noteq> APPROVED
                \<and> areAllDocumentsUploaded w i"
    using assms g by (auto simp add: submitRequest_def split: if_splits)
  define W where "W = updateRequest_repo e w i
                       (\<lambda>r. r\<lparr>status := SUBMITTED, completionPercent := 100, reviewStatus := PENDING\<rparr>)"
  have al: "auditLogs W = auditLogs w" by (simp add: W_def)
  have up: "submitRequest (sinkUp e) w i ip =
              thenReturn (createAuditLog (sinkUp e) 0 W ''customer'' ''CUSTOMER_SUBMITTED'' i ip [])
                         (\<lambda>w2. getRequestById w2 i)"
    and down: "submitRequest (sinkDown e) w i ip =
              thenReturn (createAuditLog (sinkDown e) 0 W ''customer'' ''CUSTOMER_SUBMITTED'' i ip [])
                         (\<lambda>w2. getRequestById w2 i)"
    using g guards
    by (simp_all add: submitRequest_def Let_def W_def
        del: createAuditLog_sinkUp createAuditLog_sinkDown)
  show "submitRequest (sinkDown e) w i ip =
           (Thrown SinkRejected, (snd (submitRequest (sinkUp e) w i ip))\<lparr>auditLogs := auditLogs w\<rparr>)"
    unfolding up down by (rule thenReturn_sink(1)[OF al])
  show "\<exists>entry. auditLogs (snd (submitRequest (sinkUp e) w i ip)) = auditLogs w @ [entry]"
    unfolding up by (rule thenReturn_sink(2)[OF al])
qed

lemma markReminderConfirmed_sink:
  assumes "thrown (fst (markReminderConfirmed (sinkUp e) w i a ip)) = None"
  shows "markReminderConfirmed (sinkDown e) w i a ip =
           (Thrown SinkRejected,
            (snd (markReminderConfirmed (sinkUp e) w i a ip))\<lparr>auditLogs := auditLogs w\<rparr>)"
    and "\<exists>entry. auditLogs (snd (markReminderConfirmed (sinkUp e) w i a ip)) = auditLogs w @ [entry]"
proof -
  obtain r where g: "getRequestById w i = Some r"
    using assms by (cases "getRequestById w i") (simp_all add: markReminderConfirmed_def)
  have guards: "status r \<noteq> EXPIRED"
    using assms g by (auto simp add: markReminderConfirmed_def split: if_splits)
  define W where "W = updateRequest_repo e w i
                       (\<lambda>r. r\<lparr>needsReminderLevel := 0, lastReminderAt := Some (clock e)\<rparr>)"
  have al: "auditLogs W = auditLogs w" by (simp add: W_def)
  have up: "markReminderConfirmed (sinkUp e) w i a ip =
              thenReturn (createAuditLog (sinkUp e) 0 W a ''REMINDER_CONFIRMED'' i ip [])
                         (\<lambda>w2. getRequestById w2 i)"
    and down: "markReminderConfirmed (sinkDown e) w i a ip =
              thenReturn (createAuditLog (sinkDown e) 0 W a ''REMINDER_CONFIRMED'' i ip [])
                         (\<lambda>w2. getRequestById w2 i)"
    using g guards
    by (simp_all add: markReminderConfirmed_def Let_def W_def
        del: createAuditLog_sinkUp createAuditLog_sinkDown)
  show "markReminderConfirmed (sinkDown e) w i a ip =
           (Thrown SinkRejected,
            (snd (markReminderConfirmed (sinkUp e) w i a ip))\<lparr>auditLogs := auditLogs w\<rparr>)"
    unfolding up down by (rule thenReturn_sink(1)[OF al])
  show "\<exists>entry. auditLogs (snd (markReminderConfirmed (sinkUp e) w i a ip)) = auditLogs w @ [entry]"
    unfolding up by (rule thenReturn_sink(2)[OF al])
qed

lemma reopenRequest_sink:
  assumes "thrown (fst (reopenRequest (sinkUp e) w i a ip)) = None"
  shows "reopenRequest (sinkDown e) w i a ip =
           (Thrown SinkRejected, (snd (reopenRequest (sinkUp e) w i a ip))\<lparr>auditLogs := auditLogs w\<rparr>)"
    and "\<exists>entry. auditLogs (snd (reopenRequest (sinkUp e) w i a ip)) = auditLogs w @ [entry]"
proof -
  obtain r where g: "getRequestById w i = Some r"
    using assms by (cases "getRequestById w i") (simp_all add: reopenRequest_def)
  have guards: "status r = EXPIRED"
    using assms g by (auto simp add: reopenRequest_def split: if_splits)
  define W where "W = updateRequest_repo e w i
                       (\<lambda>r. r\<lparr>status := OPEN, expiredAt := None, needsReminderLevel := 0,
                               lastReminderAt := None\<rparr>)"
  have al: "auditLogs W = auditLogs w" by (simp add: W_def)
  have up: "reopenRequest (sinkUp e) w i a ip =
              thenReturn (createAuditLog (sinkUp e) 0 W a ''REQUEST_REOPENED'' i ip [])
                         (\<lambda>w2. getRequestById w2 i)"
    and down: "reopenRequest (sinkDown e) w i a ip =
              thenReturn (createAuditLog (sinkDown e) 0 W a ''REQUEST_REOPENED'' i ip [])
                         (\<lambda>w2. getRequestById w2 i)"
    using g guards
    by (simp_all add: reopenRequest_def Let_def W_def
        del: createAuditLog_sinkUp createAuditLog_sinkDown)
  show "reopenRequest (sinkDown e) w i a ip =
           (Thrown SinkRejected, (snd (reopenRequest (sinkUp e) w i a ip))\<lparr>auditLogs := auditLogs w\<rparr>)"
    unfolding up down by (rule thenReturn_sink(1)[OF al])
  show "\<exists>entry. auditLogs (snd (reopenRequest (sinkUp e) w i a ip)) = auditLogs w @ [entry]"
    unfolding up by (rule thenReturn_sink(2)[OF al])
qed

lemma reviewRequest_sink:
  assumes "thrown (fst (reviewRequest (sinkUp e) w i d c a ip ts)) = None"
  shows "reviewRequest (sinkDown e) w i d c a ip ts =
           (Thrown SinkRejected,
            (snd (reviewRequest (sinkUp e) w i d c a ip ts))\<lparr>auditLogs := auditLogs w\<rparr>)"
    and "\<exists>entry. auditLogs (snd (reviewRequest (sinkUp e) w i d c a ip ts)) = auditLogs w @ [entry]"
proof -
  obtain r where g: "getRequestById w i = Some r"
    using assms by (cases "getRequestById w i") (simp_all add: reviewRequest_def)
  have guards: "status r = SUBMITTED \<and> \<not> (d = ''REJECT'' \<and> \<not> truthy c)
                \<and> \<not> (d = ''REJECT'' \<and> ts = [])"
    using assms g by (auto simp add: reviewRequest_def split: if_splits)
  define W where "W = updateRequest_repo e w i (reviewData e d c a ts)"
  define m where "m = [(''comment'', (case c of None \<Rightarrow> [] | Some x \<Rightarrow> [x])),
                       (''rejectedDocumentTypes'', ts)]"
  define act where "act = (if d = ''APPROVE'' then ''REVIEW_APPROVED'' else ''REVIEW_REJECTED'')"
  have al: "auditLogs W = auditLogs w" by (simp add: W_def)
  have up: "reviewRequest (sinkUp e) w i d c a ip ts =
              thenReturn (createAuditLog (sinkUp e) 0 W a act i ip m) (\<lambda>w2. getRequestById w2 i)"
    and down: "reviewRequest (sinkDown e) w i d c a ip ts =
              thenReturn (createAuditLog (sinkDown e) 0 W a act i ip m) (\<lambda>w2. getRequestById w2 i)"
    using g guards
    by (auto simp add: reviewRequest_def Let_def W_def m_def act_def
        simp del: createAuditLog_sinkUp createAuditLog_sinkDown)
  show "reviewRequest (sinkDown e) w i d c a ip ts =
           (Thrown SinkRejected,
            (snd (reviewRequest (sinkUp e) w i d c a ip ts))\<lparr>auditLogs := auditLogs w\<rparr>)"
    unfolding up down by (rule thenReturn_sink(1)[OF al])
  show "\<exists>entry. auditLogs (snd (reviewRequest (sinkUp e) w i d c a ip ts)) = auditLogs w @ [entry]"
    unfolding up by (rule thenReturn_sink(2)[OF al])
qed

lemma uploadDocument_sink:
  assumes "thrown (fst (uploadDocument (sinkUp e) w i t f ip)) = None"
  shows "uploadDocument (sinkDown e) w i t f ip =
           (Thrown SinkRejected,
            (snd (uploadDocument (sinkUp e) w i t f ip))\<lparr>auditLogs := auditLogs w\<rparr>)"
    and "\<exists>entry. auditLogs (snd (uploadDocument (sinkUp e) w i t f ip)) = auditLogs w @ [entry]"
proof -
  obtain r where g: "getRequestById w i = Some r"
    using assms by (cases "getRequestById w i") (simp_all add: uploadDocument_def)
  have guards: "status r \<noteq> EXPIRED" "status r \<noteq> COMPLETED" "reviewStatus r \<noteq> APPROVED"
    "t \<in> set DOCUMENT_TYPES"
    using assms g by (auto simp add: uploadDocument_def split: if_splits)
  define w1 where "w1 = (case getDocumentByType w i t of
                        None \<Rightarrow> w
                      | Some existingDoc \<Rightarrow>
                          if doc_id existingDoc \<noteq> []
                          then w\<lparr>documents :=
                                   filter (\<lambda>d. doc_id d \<noteq> doc_id existingDoc) (documents w)\<rparr>
                          else w)"
  define nd where "nd = \<lparr> doc_id = autoId e 0, doc_requestId = i, doc_type = t, doc_storagePath = f,
                           doc_uploadedAt = clock e, doc_checksum = None \<rparr>"
  define w2 where "w2 = w1\<lparr>documents := documents w1 @ [nd]\<rparr>"
  define W where "W = updateRequest_repo e w2 i
                        (\<lambda>r. r\<lparr>completionPercent := calculateCompletionPercent w2 i\<rparr>)"
  have al: "auditLogs W = auditLogs w"
    by (simp add: W_def w2_def w1_def split: option.splits)
  have up: "uploadDocument (sinkUp e) w i t f ip =
              thenReturn (createAuditLog (sinkUp e) 1 W ''customer'' ''CUSTOMER_UPLOADED_DOCUMENT'' i ip
                            [(''documentType'', [t])]) (\<lambda>_. nd)"
    unfolding W_def w2_def nd_def w1_def
    using uploadDocument_unfold[OF g guards, of "sinkUp e" f ip]
    by (simp add: Let_def del: createAuditLog_sinkUp createAuditLog_sinkDown)
  have down: "uploadDocument (sinkDown e) w i t f ip =
              thenReturn (createAuditLog (sinkDown e) 1 W ''customer'' ''CUSTOMER_UPLOADED_DOCUMENT'' i ip
                            [(''documentType'', [t])]) (\<lambda>_. nd)"
    unfolding W_def w2_def nd_def w1_def
    using uploadDocument_unfold[OF g guards, of "sinkDown e" f ip]
    by (simp add: Let_def del: createAuditLog_sinkUp createAuditLog_sinkDown)
  show "uploadDocument (sinkDown e) w i t f ip =
           (Thrown SinkRejected,
            (snd (uploadDocument (sinkUp e) w i t f ip))\<lparr>auditLogs := auditLogs w\<rparr>)"
    unfolding up down by (rule thenReturn_sink(1)[OF al])
  show "\<exists>entry. auditLogs (snd (uploadDocument (sinkUp e) w i t f ip)) = auditLogs w @ [entry]"
    unfolding up by (rule thenReturn_sink(2)[OF al])
qed

lemma updateRequest_sink:
  assumes "thrown (fst (updateRequest (sinkUp e) w i ups a ip)) = None"
    and "snd (updateRequest (sinkUp e) w i ups a ip) \<noteq> w"
  shows "updateRequest (sinkDown e) w i ups a ip = (Thrown SinkRejected, w)"
proof -
  obtain r where g: "getRequestById w i = Some r"
    using assms(1) by (cases "getRequestById w i") (simp_all add: updateRequest_def)
  have guard: "\<not> (statusChange r ups \<and> status r = EXPIRED \<and> u_status ups \<noteq> Some OPEN)"
    using assms(1) g by (auto simp add: updateRequest_def split: if_splits)
  have change: "statusChange r ups \<or> notesChange r ups"
  proof (rule ccontr)
    assume "\<not> (statusChange r ups \<or> notesChange r ups)"
    then have "updateRequest (sinkUp e) w i ups a ip = (Returned (Some r), w)"
      using g by (simp add: updateRequest_def)
    then show False using assms(2) by simp
  qed
  show ?thesis
  proof (cases "statusChange r ups")
    case True
    then show ?thesis using g guard by (auto simp add: updateRequest_def awaited_def)
  next
    case False
    then have "notesChange r ups" using change by simp
    then show ?thesis using g False by (simp add: updateRequest_def awaited_def)
  qed
qed

lemma sampleEnv_sink:
  "sinkUp (sampleEnv now up) = sampleEnv now True"
  "sinkDown (sampleEnv now up) = sampleEnv now False"
  by (simp_all add: sinkUp_def sinkDown_def sampleEnv_def)

lemma uploadingWorld_request:
  "getRequestById uploadingWorld ''r1'' = Some (hd (requests uploadingWorld))"
  "status (hd (requests uploadingWorld)) = IN_PROGRESS"
  "reviewStatus (hd (requests uploadingWorld)) = PENDING"
  "auditLogs uploadingWorld = []"
  by (simp_all add: getRequestById_def uploadingWorld_def sampleRequest_def createRequestModel_def)

lemma submit_uploadingWorld:
  "fst (run (sampleEnv now True) (Submit ''r1'' None) uploadingWorld) = None"
  "map status (requests (snd (run (sampleEnv now True) (Submit ''r1'' None) uploadingWorld)))
     = [SUBMITTED]"
  "length (auditLogs (snd (run (sampleEnv now True) (Submit ''r1'' None) uploadingWorld))) = 1"
proof -
  have g: "status (hd (requests uploadingWorld)) \<noteq> EXPIRED"
    "status (hd (requests uploadingWorld)) \<noteq> COMPLETED"
    "reviewStatus (hd (requests uploadingWorld)) \<noteq> APPROVED"
    by (simp_all add: uploadingWorld_request)
  have up: "\<And>l. sinkAccepts (sampleEnv now True) l" by (simp add: sampleEnv_def)
  show "fst (run (sampleEnv now True) (Submit ''r1'' None) uploadingWorld) = None"
    using submitRequest_commits(3)[OF uploadingWorld_request(1) g uploadingWorld_complete,
            of "sampleEnv now True" None] up
    by (simp add: thrown_def)
  show "map status (requests (snd (run (sampleEnv now True) (Submit ''r1'' None) uploadingWorld)))
     = [SUBMITTED]"
    by (simp add: submitRequest_def uploadingWorld_request g uploadingWorld_complete Let_def
        createAuditLog_def sampleEnv_def)
       (simp add: updateRequest_repo_def uploadingWorld_def sampleRequest_def
         createRequestModel_def)
  show "length (auditLogs (snd (run (sampleEnv now True) (Submit ''r1'' None) uploadingWorld))) = 1"
    by (simp add: submitRequest_def uploadingWorld_request g uploadingWorld_complete Let_def
        createAuditLog_def sampleEnv_def)
qed

lemma edit_openWorld:
  "fst (run (sampleEnv now True) (OwnerEdit ''r1'' (statusEdit IN_PROGRESS) ''agent-1'' None)
          openWorld) = None"
  "map status (requests (snd (run (sampleEnv now True)
                                (OwnerEdit ''r1'' (statusEdit IN_PROGRESS) ''agent-1'' None)
                                openWorld)))
     = [IN_PROGRESS]"
proof -
  note defs = updateRequest_def getRequestById_def updateRequest_repo_def createAuditLog_def
    awaited_def updateData_def statusChange_def notesChange_def truthy_def statusEdit_def Let_def
    sampleRequest_def createRequestModel_def sampleEnv_def openWorld_def thrown_def
  have ne: "IN_PROGRESS \<noteq> []" by (simp add: IN_PROGRESS_def)
  show "fst (run (sampleEnv now True) (OwnerEdit ''r1'' (statusEdit IN_PROGRESS) ''agent-1'' None)
          openWorld) = None"
    by (simp add: defs ne)
  show "map status (requests (snd (run (sampleEnv now True)
                                (OwnerEdit ''r1'' (statusEdit IN_PROGRESS) ''agent-1'' None)
                                openWorld)))
     = [IN_PROGRESS]"
    by (simp add: defs ne)
qed

text \<open>
  Claim C6, as the code has it. No operation catches a failure of the audit write. When
  the audit sink refuses its writes, an upload, a submission, a review, a reopening and a
  reminder confirmation that would otherwise have returned leave the store exactly as
  they would have, without the audit record: the record is written after the store, and
  the store keeps the change. But the call throws the sink's rejection instead of
  returning; so does an owner edit that would have changed the request.
\<close>

theorem audit_failure_is_thrown:
  "(auditsAfterWrite opn \<and> fst (run (sinkUp e) opn w) = None \<longrightarrow>
      run (sinkDown e) opn w =
        (Some SinkRejected, (snd (run (sinkUp e) opn w))\<lparr>auditLogs := auditLogs w\<rparr>)
      \<and> (\<exists>entry. auditLogs (snd (run (sinkUp e) opn w)) = auditLogs w @ [entry]))
   \<and> (fst (run (sinkUp e) (OwnerEdit i ups a ip) w) = None
       \<and> snd (run (sinkUp e) (OwnerEdit i ups a ip) w) \<noteq> w \<longrightarrow>
      fst (run (sinkDown e) (OwnerEdit i ups a ip) w) = Some SinkRejected)"
proof (rule conjI; rule impI)
  assume h: "auditsAfterWrite opn \<and> fst (run (sinkUp e) opn w) = None"
  show "run (sinkDown e) opn w =
        (Some SinkRejected, (snd (run (sinkUp e) opn w))\<lparr>auditLogs := auditLogs w\<rparr>)
      \<and> (\<exists>entry. auditLogs (snd (run (sinkUp e) opn w)) = auditLogs w @ [entry])"
  proof (cases opn)
    case (Upload x1 x2 x3 x4)
    then show ?thesis using h uploadDocument_sink[of e w x1 x2 x3 x4] by simp
  next
    case (Submit x1 x2)
    then show ?thesis using h submitRequest_sink[of e w x1 x2] by simp
  next
    case (OwnerEdit x1 x2 x3 x4)
    then show ?thesis using h by simp
  next
    case (ConfirmReminder x1 x2 x3)
    then show ?thesis using h markReminderConfirmed_sink[of e w x1 x2 x3] by simp
  next
    case (Reopen x1 x2 x3)
    then show ?thesis using h reopenRequest_sink[of e w x1 x2 x3] by simp
  next
    case (Review x1 x2 x3 x4 x5 x6)
    then show ?thesis using h reviewRequest_sink[of e w x1 x2 x3 x4 x5 x6] by simp
  next
    case ExpiryJob
    then show ?thesis using h by simp
  next
    case ReminderJob
    then show ?thesis using h by simp
  qed
next
  assume "fst (run (sinkUp e) (OwnerEdit i ups a ip) w) = None
       \<and> snd (run (sinkUp e) (OwnerEdit i ups a ip) w) \<noteq> w"
  then show "fst (run (sinkDown e) (OwnerEdit i ups a ip) w) = Some SinkRejected"
    using updateRequest_sink[of e w i ups a ip] by simp
qed

text \<open>
  C6 at concrete stores. The submission of the request of \<open>uploadingWorld\<close> returns when
  the sink accepts and writes one audit record; when the sink refuses, the call throws and
  the store is the one of the accepted run without the audit record. The edit of the
  request of \<open>openWorld\<close> to IN_PROGRESS returns when the sink accepts and throws when it
  refuses.
\<close>

theorem audit_failure_is_thrown_witness:
  "auditsAfterWrite (Submit ''r1'' None)
   \<and> fst (run (sinkUp (sampleEnv 7000 True)) (Submit ''r1'' None) uploadingWorld) = None
   \<and> run (sinkDown (sampleEnv 7000 True)) (Submit ''r1'' None) uploadingWorld =
       (Some SinkRejected,
        (snd (run (sinkUp (sampleEnv 7000 True)) (Submit ''r1'' None) uploadingWorld))
          \<lparr>auditLogs := []\<rparr>)
   \<and> length (auditLogs (snd (run (sinkUp (sampleEnv 7000 True)) (Submit ''r1'' None)
                                uploadingWorld))) = 1
   \<and> fst (run (sinkUp (sampleEnv 7000 True))
            (OwnerEdit ''r1'' (statusEdit IN_PROGRESS) ''agent-1'' None) openWorld) = None
   \<and> snd (run (sinkUp (sampleEnv 7000 True))
            (OwnerEdit ''r1'' (statusEdit IN_PROGRESS) ''agent-1'' None) openWorld) \<noteq> openWorld
   \<and> fst (run (sinkDown (sampleEnv 7000 True))
            (OwnerEdit ''r1'' (statusEdit IN_PROGRESS) ''agent-1'' None) openWorld)
       = Some SinkRejected"
proof -
  let ?e = "sampleEnv 7000 True"
  let ?s = "Submit ''r1'' None"
  let ?o = "OwnerEdit ''r1'' (statusEdit IN_PROGRESS) ''agent-1'' None"
  note t = audit_failure_is_thrown[where opn = ?s and e = ?e and w = uploadingWorld]
  note t' = audit_failure_is_thrown[where e = ?e and w = openWorld and i = "''r1''"
              and ups = "statusEdit IN_PROGRESS" and a = "''agent-1''" and ip = None]
  have a: "auditsAfterWrite ?s" by simp
  have r: "fst (run (sinkUp ?e) ?s uploadingWorld) = None"
    by (simp only: sampleEnv_sink submit_uploadingWorld)
  have n: "length (auditLogs (snd (run (sinkUp ?e) ?s uploadingWorld))) = 1"
    by (simp only: sampleEnv_sink submit_uploadingWorld)
  have "run (sinkDown ?e) ?s uploadingWorld =
       (Some SinkRejected, (snd (run (sinkUp ?e) ?s uploadingWorld))
                             \<lparr>auditLogs := auditLogs uploadingWorld\<rparr>)"
    using t[THEN conjunct1] a r by blast
  then have d: "run (sinkDown ?e) ?s uploadingWorld =
       (Some SinkRejected, (snd (run (sinkUp ?e) ?s uploadingWorld))\<lparr>auditLogs := []\<rparr>)"
    by (simp only: uploadingWorld_request(4))
  have r': "fst (run (sinkUp ?e) ?o openWorld) = None"
    by (simp only: sampleEnv_sink edit_openWorld)
  have "map status (requests (snd (run (sinkUp ?e) ?o openWorld))) \<noteq> map status (requests openWorld)"
    by (simp only: sampleEnv_sink edit_openWorld) (simp add: openWorld_def sampleRequest_def)
  then have c: "snd (run (sinkUp ?e) ?o openWorld) \<noteq> openWorld" by auto
  have d': "fst (run (sinkDown ?e) ?o openWorld) = Some SinkRejected"
    using t'[THEN conjunct2] r' c by blast
  show ?thesis by (intro conjI a r d n r' c d')
qed

text \<open>
  C6 as stated fails. With the sink refusing, the submission of the request of
  \<open>uploadingWorld\<close> stores the status SUBMITTED and then throws, where with the sink
  accepting it returns; and the edit of the request of \<open>openWorld\<close> to IN_PROGRESS, which
  writes its audit record before the store, throws and leaves the store as it was.
\<close>

theorem audit_sink_failure_counterexample:
  "map status (requests uploadingWorld) = [IN_PROGRESS]
   \<and> fst (run (sampleEnv 7000 True) (Submit ''r1'' None) uploadingWorld) = None
   \<and> fst (run (sampleEnv 7000 False) (Submit ''r1'' None) uploadingWorld) = Some SinkRejected
   \<and> map status (requests (snd (run (sampleEnv 7000 False) (Submit ''r1'' None) uploadingWorld)))
       = [SUBMITTED]
   \<and> map status (requests openWorld) = [OPEN]
   \<and> fst (run (sampleEnv 7000 True) (OwnerEdit ''r1'' (statusEdit IN_PROGRESS) ''agent-1'' None)
            openWorld) = None
   \<and> map status (requests (snd (run (sampleEnv 7000 True)
                                  (OwnerEdit ''r1'' (statusEdit IN_PROGRESS) ''agent-1'' None)
                                  openWorld)))
       = [IN_PROGRESS]
   \<and> run (sampleEnv 7000 False) (OwnerEdit ''r1'' (statusEdit IN_PROGRESS) ''agent-1'' None)
        openWorld
       = (Some SinkRejected, openWorld)"
proof -
  let ?s = "Submit ''r1'' None"
  let ?o = "OwnerEdit ''r1'' (statusEdit IN_PROGRESS) ''agent-1'' None"
  have s0: "map status (requests uploadingWorld) = [IN_PROGRESS]"
    by (simp add: uploadingWorld_def sampleRequest_def)
  have o0: "map status (requests openWorld) = [OPEN]"
    by (simp add: openWorld_def sampleRequest_def)
  have up: "thrown (fst (submitRequest (sinkUp (sampleEnv 7000 True)) uploadingWorld ''r1'' None))
             = None"
    using submit_uploadingWorld(1)[of 7000] by (simp add: sampleEnv_sink)
  have down: "run (sampleEnv 7000 False) ?s uploadingWorld =
               (Some SinkRejected,
                (snd (run (sampleEnv 7000 True) ?s uploadingWorld))\<lparr>auditLogs := []\<rparr>)"
    using submitRequest_sink(1)[OF up]
    by (simp add: sampleEnv_sink uploadingWorld_request(4))
  have d1: "fst (run (sampleEnv 7000 False) ?s uploadingWorld) = Some SinkRejected"
    by (simp only: down fst_conv)
  have d2: "map status (requests (snd (run (sampleEnv 7000 False) ?s uploadingWorld)))
              = [SUBMITTED]"
    using submit_uploadingWorld(2)[of 7000] by (simp only: down snd_conv) simp
  have eup: "thrown (fst (updateRequest (sinkUp (sampleEnv 7000 True)) openWorld ''r1''
                            (statusEdit IN_PROGRESS) ''agent-1'' None)) = None"
    using edit_openWorld(1)[of 7000] by (simp add: sampleEnv_sink)
  have "map status (requests (snd (run (sampleEnv 7000 True) ?o openWorld)))
          \<noteq> map status (requests openWorld)"
    by (simp only: edit_openWorld o0) simp
  then have "snd (run (sampleEnv 7000 True) ?o openWorld) \<noteq> openWorld" by auto
  then have ch: "snd (updateRequest (sinkUp (sampleEnv 7000 True)) openWorld ''r1''
                        (statusEdit IN_PROGRESS) ''agent-1'' None) \<noteq> openWorld"
    by (simp add: sampleEnv_sink)
  have e1: "run (sampleEnv 7000 False) ?o openWorld = (Some SinkRejected, openWorld)"
    using updateRequest_sink[OF eup ch] by (simp add: sampleEnv_sink)
  show ?thesis by (intro conjI s0 submit_uploadingWorld(1) d1 d2 o0 edit_openWorld e1)
qed

end
